theory Spec2Isabelle
  imports Main "HOL-Library.Sublist" "HOL-Library.Word"
begin

section \<open>Data model\<close>

text \<open>
  The harness of \<^verbatim>\<open>kakarot_scripts/ef_tests/debug.py\<close> loads one test vector, seeds a
  reference node with its pre-state, replays the transactions of its first block and
  compares the node's state with the expected post-state. Every failure of the script is a
  Python exception; the model returns it as a value.

  The vector is typed as the corpus has it: an account holds its code, balance and nonce
  as strings and its storage as a dictionary from strings to strings, kept as a list of
  entries in the order of the dictionary; a block descriptor is reduced to its
  \<^verbatim>\<open>rlp\<close> string. The decoded block and its transactions are objects of a library:
  the model keeps the fields the script reads, and \<open>encoded\<close> is what
  \<^verbatim>\<open>transaction.encode()\<close> returns.
\<close>

type_synonym byte = "8 word"

text \<open>
  What the \<^verbatim>\<open>try\<close> block of \<^verbatim>\<open>check_post_state\<close> can raise: a failed
  \<^verbatim>\<open>assert\<close>, whose message names the field and prints the live value and the expected
  one in this order, or the \<^verbatim>\<open>ValueError\<close> of \<^verbatim>\<open>int(s, 16)\<close> or of
  \<^verbatim>\<open>bytes.fromhex(s)\<close> on a malformed string \<open>s\<close>.
\<close>

datatype field = Balance | Nonce | Code | Storage string

datatype pyval = IntV int | BytesV "byte list"

datatype exn =
    AssertionError field pyval pyval
  | InvalidLiteral string
  | NonHexadecimal string

text \<open>
  The exceptions that leave a function of the script. Most are \<^verbatim>\<open>ValueError\<close>s or
  plain \<^verbatim>\<open>Exception\<close>s that differ by their message only; each raise site has a
  constructor of its own, named after the error taxonomy of the specification.
  \<^item> \<open>InvalidNameError\<close>, \<open>NotFoundError\<close>, \<open>AmbiguousTestError\<close>: the four
    \<^verbatim>\<open>ValueError\<close>s of \<^verbatim>\<open>get_test_file\<close>, with their message (not found is raised
    at two places, with two messages);
  \<^item> \<open>JSONDecodeError\<close>: \<^verbatim>\<open>json.loads\<close> raised;
  \<^item> \<open>InvalidAddress\<close>: \<^verbatim>\<open>Web3.to_checksum_address\<close> raised on this string;
  \<^item> \<open>StateMismatchError a e\<close>: the \<^verbatim>\<open>ValueError\<close> of \<^verbatim>\<open>check_post_state\<close>,
    \<^verbatim>\<open>Post state does not match for {address}, got {e}\<close>;
  \<^item> \<open>EmptyBlockError\<close>: the \<^verbatim>\<open>ValueError\<close> of \<^verbatim>\<open>main\<close> on a block without
    transactions, with its message;
  \<^item> \<open>InvalidLiteralError\<close>: \<^verbatim>\<open>int(s, 16)\<close> raised on this string in
    \<^verbatim>\<open>set_pre_state\<close>;
  \<^item> \<open>EnvironmentError\<close>: a call to the node raised;
  \<^item> \<open>BlockDecodeError\<close>, \<open>LaunchError\<close>, \<open>NotConnectedError\<close>: the exceptions of
    \<^verbatim>\<open>get_block\<close>, of the constructor of \<^verbatim>\<open>AnvilHandler\<close> and of
    \<^verbatim>\<open>connect_anvil\<close>, with their message.
\<close>

datatype error =
    InvalidNameError string
  | NotFoundError string
  | AmbiguousTestError string
  | JSONDecodeError
  | InvalidAddress string
  | StateMismatchError string exn
  | EmptyBlockError string
  | InvalidLiteralError string
  | EnvironmentError
  | BlockDecodeError string
  | LaunchError string
  | NotConnectedError string

record account =
  code :: string
  balance :: string
  nonce :: string
  storage :: "(string \<times> string) list"

record transaction =
  chain_id :: "int option"
  encoded :: "byte list"

record block =
  timestamp :: int
  coinbase :: "byte list"
  base_fee_per_gas :: int
  gas_limit :: int
  transactions :: "transaction list"

record test_vector =
  pre :: "(string \<times> account) list"
  blocks :: "string list"
  postState :: "(string \<times> account) list"

text \<open>
  The node behind the \<^verbatim>\<open>Web3\<close> handle is a state of type \<open>'s\<close>. A call that changes
  it returns the new state, or \<open>None\<close> where the library raises; the reads are functions
  of the state. \<open>send_raw_transaction\<close> returns the hash as the script keeps it, after
  \<^verbatim>\<open>.hex()\<close>. The model records the calls that change the node, in the order they are
  made, as a list of \<open>call\<close>s: each with its arguments and with what it returned
  (\<open>False\<close> or \<open>None\<close> where it raised).
\<close>

datatype param = Str string | Num int

datatype call =
    MakeRequest string "param list" bool
  | SendRawTransaction "byte list" "string option"
  | WaitForTransactionReceipt string bool

record 's provider =
  is_connected :: "'s \<Rightarrow> bool"
  make_request :: "string \<Rightarrow> param list \<Rightarrow> 's \<Rightarrow> 's option"
  send_raw_transaction :: "byte list \<Rightarrow> 's \<Rightarrow> (string \<times> 's) option"
  wait_for_transaction_receipt :: "string \<Rightarrow> 's \<Rightarrow> 's option"
  get_balance :: "'s \<Rightarrow> string \<Rightarrow> int"
  get_transaction_count :: "'s \<Rightarrow> string \<Rightarrow> int"
  get_code :: "'s \<Rightarrow> string \<Rightarrow> byte list"
  get_storage_at :: "'s \<Rightarrow> string \<Rightarrow> string \<Rightarrow> byte list"

text \<open>
  What the node itself does with a list of recorded calls: each call is applied to the
  state the call before it returned, starting from \<open>s\<close>, and its recorded result is
  compared with what the node returns. The run reaches a state when every call returned
  what is recorded; it is \<open>Raised\<close> when the last call, and only the last, raised at the
  node as recorded; it \<open>Disagrees\<close> when a record differs from what the node returns or
  when a call follows one that raised.
\<close>

datatype 's run = Reached 's | Raised | Disagrees

fun node_run :: "'s provider \<Rightarrow> call list \<Rightarrow> 's \<Rightarrow> 's run" where
  "node_run w3 [] s = Reached s"
| "node_run w3 (MakeRequest method params ok # calls) s =
     (case make_request w3 method params s of
        None \<Rightarrow> if \<not> ok \<and> calls = [] then Raised else Disagrees
      | Some s' \<Rightarrow> if ok then node_run w3 calls s' else Disagrees)"
| "node_run w3 (SendRawTransaction raw r # calls) s =
     (case send_raw_transaction w3 raw s of
        None \<Rightarrow> if r = None \<and> calls = [] then Raised else Disagrees
      | Some (h, s') \<Rightarrow> if r = Some h then node_run w3 calls s' else Disagrees)"
| "node_run w3 (WaitForTransactionReceipt h ok # calls) s =
     (case wait_for_transaction_receipt w3 h s of
        None \<Rightarrow> if \<not> ok \<and> calls = [] then Raised else Disagrees
      | Some s' \<Rightarrow> if ok then node_run w3 calls s' else Disagrees)"

section \<open>Python library functions\<close>

text \<open>
  \<^verbatim>\<open>Py_ISSPACE\<close> and \<^verbatim>\<open>_PyLong_DigitValue\<close> (restricted to base 16) of CPython, on
  ASCII strings.
\<close>

definition is_space :: "char \<Rightarrow> bool" where
  "is_space c = (c \<in> set [CHR 0x09, CHR 0x0A, CHR 0x0B, CHR 0x0C, CHR 0x0D, CHR 0x20])"

definition hex_digit :: "char \<Rightarrow> nat option" where
  "hex_digit c =
     (let n = (of_char c :: nat)
      in if 48 \<le> n \<and> n \<le> 57 then Some (n - 48)
         else if 97 \<le> n \<and> n \<le> 102 then Some (n - 87)
         else if 65 \<le> n \<and> n \<le> 70 then Some (n - 55)
         else None)"

text \<open>
  The digit scanner of \<^verbatim>\<open>int(s, 16)\<close>: it reads hexadecimal digits and underscores,
  refuses two underscores in a row and an underscore at the end of the run, and returns the
  value read and the rest of the string. \<open>prev\<close> is the character read last.
\<close>

fun long_from_binary_base :: "char \<Rightarrow> nat \<Rightarrow> string \<Rightarrow> (nat \<times> string) option" where
  "long_from_binary_base prev z [] = (if prev = CHR ''_'' then None else Some (z, []))"
| "long_from_binary_base prev z (c # cs) =
     (if c = CHR ''_'' then
        (if prev = CHR ''_'' then None else long_from_binary_base c z cs)
      else (case hex_digit c of
              Some d \<Rightarrow> long_from_binary_base c (16 * z + d) cs
            | None \<Rightarrow> if prev = CHR ''_'' then None else Some (z, c # cs)))"

fun skip_sign :: "string \<Rightarrow> int \<times> string" where
  "skip_sign [] = (1, [])"
| "skip_sign (c # cs) =
     (if c = CHR ''+'' then (1, cs) else if c = CHR ''-'' then (- 1, cs) else (1, c # cs))"

fun skip_prefix :: "string \<Rightarrow> string" where
  "skip_prefix (c0 # c1 # cs) =
     (if c0 = CHR ''0'' \<and> (c1 = CHR ''x'' \<or> c1 = CHR ''X'') then
        (case cs of [] \<Rightarrow> [] | u # r \<Rightarrow> if u = CHR ''_'' then r else u # r)
      else c0 # c1 # cs)"
| "skip_prefix cs = cs"

text \<open>
  \<^verbatim>\<open>int(s, 16)\<close>, as \<^verbatim>\<open>PyLong_FromString\<close> computes it: leading white space, a
  sign, the prefix \<^verbatim>\<open>0x\<close> or \<^verbatim>\<open>0X\<close> with one underscore allowed after it, the
  digits, trailing white space. \<open>None\<close> is the \<^verbatim>\<open>ValueError\<close> of an invalid literal.
\<close>

definition py_int16 :: "string \<Rightarrow> int option" where
  "py_int16 s =
     (let (sign, str) = skip_sign (dropWhile is_space s);
          start = skip_prefix str
      in if start \<noteq> [] \<and> hd start = CHR ''_'' then None
         else (case long_from_binary_base (CHR 0x00) 0 start of
                 None \<Rightarrow> None
               | Some (z, rest) \<Rightarrow>
                   if rest = start then None
                   else if dropWhile is_space rest \<noteq> [] then None
                   else Some (sign * int z)))"

text \<open>
  \<^verbatim>\<open>bytes.fromhex(s)\<close>: pairs of hexadecimal digits, white space allowed before each
  pair and at the end. \<open>None\<close> is its \<^verbatim>\<open>ValueError\<close>.
\<close>

fun bytes_fromhex :: "string \<Rightarrow> byte list option" where
  "bytes_fromhex [] = Some []"
| "bytes_fromhex [c] = (if is_space c then Some [] else None)"
| "bytes_fromhex (c # d # cs) =
     (if is_space c then bytes_fromhex (d # cs)
      else (case (hex_digit c, hex_digit d) of
              (Some hi, Some lo) \<Rightarrow>
                map_option ((#) (of_nat (16 * hi + lo))) (bytes_fromhex cs)
            | _ \<Rightarrow> None))"

text \<open>\<^verbatim>\<open>int.from_bytes(bs, "big")\<close>.\<close>

definition int_from_bytes_big :: "byte list \<Rightarrow> int" where
  "int_from_bytes_big bs = int (foldl (\<lambda>a b. 256 * a + unat b) 0 bs)"

text \<open>
  The format specification \<^verbatim>\<open>064x\<close> of an f-string: lower-case hexadecimal digits,
  padded with zeros after the sign to a width of at least 64 characters, sign included.
\<close>

definition hex_char :: "nat \<Rightarrow> char" where
  "hex_char d = (if d < 10 then char_of (48 + d) else char_of (87 + d))"

fun to_hex :: "nat \<Rightarrow> string" where
  "to_hex n = (if n < 16 then [hex_char n] else to_hex (n div 16) @ [hex_char (n mod 16)])"

declare to_hex.simps [simp del]

definition zero_pad :: "nat \<Rightarrow> string \<Rightarrow> string" where
  "zero_pad w s = replicate (w - length s) (CHR ''0'') @ s"

definition format_064x :: "int \<Rightarrow> string" where
  "format_064x n =
     (if n < 0 then CHR ''-'' # zero_pad 63 (to_hex (nat (- n)))
      else zero_pad 64 (to_hex (nat n)))"

text \<open>\<^verbatim>\<open>bytes.hex()\<close>: two lower-case digits for each byte, no prefix.\<close>

definition bytes_hex :: "byte list \<Rightarrow> string" where
  "bytes_hex bs = concat (map (\<lambda>b. [hex_char (unat b div 16), hex_char (unat b mod 16)]) bs)"

section \<open>Vector loader\<close>

definition name_too_long_msg :: "string \<Rightarrow> string" where
  "name_too_long_msg TEST_NAME =
     ''Test name '' @ [CHR 0x27] @ TEST_NAME @ [CHR 0x27] @
     '' could not be parsed because it exceeds the maximum length of 255 characters.''"

definition not_found_hint_msg :: "string \<Rightarrow> string" where
  "not_found_hint_msg TEST_NAME =
     ''Test '' @ [CHR 0x27] @ TEST_NAME @ [CHR 0x27] @
     '' not found. Please ensure that you are using the valid EF-Test name, not the sanitized identifier used in the runner. If the test name is longer than 255 characters, it might be invalid.''"

definition ambiguous_msg :: "string \<Rightarrow> string" where
  "ambiguous_msg TEST_NAME =
     ''Test '' @ TEST_NAME @ '' is ambiguous, please set TEST_PARENT_FOLDER to test file folder''"

definition not_found_msg :: "string \<Rightarrow> string" where
  "not_found_msg TEST_NAME = ''Test '' @ TEST_NAME @ '' not found''"

text \<open>
  \<^verbatim>\<open>get_test_file\<close>. The directory \<^verbatim>\<open>EF_TESTS_PARSED_DIR\<close> is given by what
  \<^verbatim>\<open>os.listdir\<close> returns for it (\<open>listdir\<close>) and by the text of each of its files
  (\<open>read_text\<close>); \<^verbatim>\<open>json.loads\<close> is a parameter that returns \<open>None\<close> where the
  library raises. Python's \<^verbatim>\<open>a in b\<close> on strings is \<^const>\<open>sublist\<close>, and
  \<^verbatim>\<open>len\<close> is \<^const>\<open>length\<close> on the ASCII names of the corpus.
\<close>

definition get_test_file ::
  "(string \<Rightarrow> test_vector option) \<Rightarrow> string list \<Rightarrow> (string \<Rightarrow> string) \<Rightarrow>
   string \<Rightarrow> string \<Rightarrow> error + test_vector" where
  "get_test_file json_loads listdir read_text TEST_NAME TEST_PARENT_FOLDER =
     (let tests = [file_name \<leftarrow> listdir.
                     sublist TEST_NAME file_name \<and> sublist TEST_PARENT_FOLDER file_name]
      in if length tests = 0 then
           (if length TEST_NAME > 255 then Inl (InvalidNameError (name_too_long_msg TEST_NAME))
            else Inl (NotFoundError (not_found_hint_msg TEST_NAME)))
         else if length tests > 1 then
           (if TEST_PARENT_FOLDER = '''' then Inl (AmbiguousTestError (ambiguous_msg TEST_NAME))
            else Inl (NotFoundError (not_found_msg TEST_NAME)))
         else (case json_loads (read_text (tests ! 0)) of
                 None \<Rightarrow> Inl JSONDecodeError
               | Some v \<Rightarrow> Inr v))"

section \<open>Post-state verifier\<close>

text \<open>
  The loop over \<^verbatim>\<open>account["storage"].items()\<close> inside the \<^verbatim>\<open>try\<close> block: one
  \<^verbatim>\<open>assert\<close> per entry, in the order of the dictionary.
\<close>

fun check_storage :: "'s provider \<Rightarrow> 's \<Rightarrow> string \<Rightarrow> (string \<times> string) list \<Rightarrow> exn + unit" where
  "check_storage w3 s address [] = Inr ()"
| "check_storage w3 s address ((k, v) # kvs) =
     (case py_int16 v of
        None \<Rightarrow> Inl (InvalidLiteral v)
      | Some n \<Rightarrow>
          if int_from_bytes_big (get_storage_at w3 s address k) = n
          then check_storage w3 s address kvs
          else Inl (AssertionError (Storage k)
                      (IntV (int_from_bytes_big (get_storage_at w3 s address k))) (IntV n)))"

text \<open>The body of the \<^verbatim>\<open>try\<close> block for one account: balance, nonce, code, storage.\<close>

definition check_account :: "'s provider \<Rightarrow> 's \<Rightarrow> string \<Rightarrow> account \<Rightarrow> exn + unit" where
  "check_account w3 s address acc =
     (case py_int16 (balance acc) of
        None \<Rightarrow> Inl (InvalidLiteral (balance acc))
      | Some b \<Rightarrow>
          if get_balance w3 s address \<noteq> b
          then Inl (AssertionError Balance (IntV (get_balance w3 s address)) (IntV b))
          else (case py_int16 (nonce acc) of
             None \<Rightarrow> Inl (InvalidLiteral (nonce acc))
           | Some n \<Rightarrow>
               if get_transaction_count w3 s address \<noteq> n
               then Inl (AssertionError Nonce (IntV (get_transaction_count w3 s address)) (IntV n))
               else (case bytes_fromhex (drop 2 (code acc)) of
                  None \<Rightarrow> Inl (NonHexadecimal (drop 2 (code acc)))
                | Some c \<Rightarrow>
                    if get_code w3 s address \<noteq> c
                    then Inl (AssertionError Code (BytesV (get_code w3 s address)) (BytesV c))
                    else check_storage w3 s address (storage acc))))"

text \<open>
  \<^verbatim>\<open>check_post_state\<close>. \<^verbatim>\<open>Web3.to_checksum_address\<close> is a parameter (\<open>None\<close> where
  it raises), and so is the constant \<^verbatim>\<open>BEACON_ROOT_ADDRESS\<close>, which the script imports
  from a module of the repository. The first conversion is outside the \<^verbatim>\<open>try\<close> block,
  so its failure is not wrapped.
\<close>

fun check_post_state ::
  "(string \<Rightarrow> string option) \<Rightarrow> string \<Rightarrow> 's provider \<Rightarrow> 's \<Rightarrow>
   (string \<times> account) list \<Rightarrow> error + unit" where
  "check_post_state to_checksum_address BEACON_ROOT_ADDRESS w3 s [] = Inr ()"
| "check_post_state to_checksum_address BEACON_ROOT_ADDRESS w3 s ((address, acc) # rest) =
     (case to_checksum_address address of
        None \<Rightarrow> Inl (InvalidAddress address)
      | Some a \<Rightarrow>
          (case to_checksum_address BEACON_ROOT_ADDRESS of
             None \<Rightarrow> Inl (InvalidAddress BEACON_ROOT_ADDRESS)
           | Some beacon \<Rightarrow>
               if a = beacon
               then check_post_state to_checksum_address BEACON_ROOT_ADDRESS w3 s rest
               else (case check_account w3 s a acc of
                       Inl e \<Rightarrow> Inl (StateMismatchError a e)
                     | Inr _ \<Rightarrow>
                         check_post_state to_checksum_address BEACON_ROOT_ADDRESS w3 s rest)))"

subsection \<open>The verifier as the specification words it\<close>

text \<open>
  The expected state of an account, with every hexadecimal string converted to the
  representation of the live reads; \<open>None\<close> when one of the strings is malformed.
\<close>

record expected_account =
  exp_balance :: int
  exp_nonce :: int
  exp_code :: "byte list"
  exp_storage :: "(string \<times> int) list"

fun expected_storage :: "(string \<times> string) list \<Rightarrow> (string \<times> int) list option" where
  "expected_storage [] = Some []"
| "expected_storage ((k, v) # kvs) =
     (case py_int16 v of
        None \<Rightarrow> None
      | Some n \<Rightarrow> map_option ((#) (k, n)) (expected_storage kvs))"

definition expected_of :: "account \<Rightarrow> expected_account option" where
  "expected_of acc =
     (case (py_int16 (balance acc), py_int16 (nonce acc), bytes_fromhex (drop 2 (code acc)),
            expected_storage (storage acc)) of
        (Some b, Some n, Some c, Some st) \<Rightarrow>
          Some \<lparr>exp_balance = b, exp_nonce = n, exp_code = c, exp_storage = st\<rparr>
      | _ \<Rightarrow> None)"

text \<open>
  The comparisons of one account, in the order balance, nonce, code, storage slots: the
  field, the live value and the expected value.
\<close>

definition comparisons ::
  "'s provider \<Rightarrow> 's \<Rightarrow> string \<Rightarrow> expected_account \<Rightarrow> (field \<times> pyval \<times> pyval) list" where
  "comparisons w3 s address e =
     [(Balance, IntV (get_balance w3 s address), IntV (exp_balance e)),
      (Nonce, IntV (get_transaction_count w3 s address), IntV (exp_nonce e)),
      (Code, BytesV (get_code w3 s address), BytesV (exp_code e))] @
     map (\<lambda>(k, n). (Storage k, IntV (int_from_bytes_big (get_storage_at w3 s address k)), IntV n))
       (exp_storage e)"

text \<open>
  The accounts that are compared: every entry of \<^verbatim>\<open>postState\<close> but those of the
  system address, under its checksummed address and with its expected state.
\<close>

definition compared_accounts ::
  "(string \<Rightarrow> string option) \<Rightarrow> string \<Rightarrow> (string \<times> account) list \<Rightarrow>
   (string \<times> expected_account) list" where
  "compared_accounts to_checksum_address BEACON_ROOT_ADDRESS post =
     List.map_filter
       (\<lambda>(address, acc).
          case (to_checksum_address address, expected_of acc) of
            (Some a, Some e) \<Rightarrow>
              if Some a = to_checksum_address BEACON_ROOT_ADDRESS then None else Some (a, e)
          | _ \<Rightarrow> None)
       post"

text \<open>
  All comparisons of a run, account after account, and the first of them whose live value
  differs from the expected one.
\<close>

definition all_comparisons ::
  "'s provider \<Rightarrow> 's \<Rightarrow> (string \<times> expected_account) list \<Rightarrow>
   (string \<times> field \<times> pyval \<times> pyval) list" where
  "all_comparisons w3 s accounts =
     concat (map (\<lambda>(a, e). map (Pair a) (comparisons w3 s a e)) accounts)"

definition first_mismatch ::
  "'s provider \<Rightarrow> 's \<Rightarrow> (string \<times> expected_account) list \<Rightarrow>
   (string \<times> field \<times> pyval \<times> pyval) option" where
  "first_mismatch w3 s accounts =
     find (\<lambda>(a, f, actual, expected). actual \<noteq> expected) (all_comparisons w3 s accounts)"

text \<open>The outcome of the comparisons of one account, from the first that differs.\<close>

definition mismatch_result :: "(field \<times> pyval \<times> pyval) option \<Rightarrow> exn + unit" where
  "mismatch_result m =
     (case m of
        None \<Rightarrow> Inr ()
      | Some (f, actual, expected) \<Rightarrow> Inl (AssertionError f actual expected))"

text \<open>
  An entry of \<^verbatim>\<open>postState\<close> is well formed when its address has a checksummed form
  and, unless it is the system address, each of its strings can be converted.
\<close>

definition well_formed_entry ::
  "(string \<Rightarrow> string option) \<Rightarrow> string \<Rightarrow> string \<times> account \<Rightarrow> bool" where
  "well_formed_entry to_checksum_address BEACON_ROOT_ADDRESS entry =
     (case to_checksum_address (fst entry) of
        None \<Rightarrow> False
      | Some a \<Rightarrow>
          Some a = to_checksum_address BEACON_ROOT_ADDRESS \<or> expected_of (snd entry) \<noteq> None)"

section \<open>Environment seeder\<close>

text \<open>
  One \<^verbatim>\<open>w3.provider.make_request(method, params)\<close>: the call is recorded, and its
  failure is the error of the environment.
\<close>

definition request ::
  "'s provider \<Rightarrow> string \<Rightarrow> param list \<Rightarrow> 's \<Rightarrow> call list \<times> (error + 's)" where
  "request w3 method params s =
     (case make_request w3 method params s of
        None \<Rightarrow> ([MakeRequest method params False], Inl EnvironmentError)
      | Some s' \<Rightarrow> ([MakeRequest method params True], Inr s'))"

text \<open>
  Sequencing of two steps that record calls: the second runs on the state the first
  returns, unless the first raised.
\<close>

definition and_then ::
  "call list \<times> (error + 'a) \<Rightarrow> ('a \<Rightarrow> call list \<times> (error + 'b)) \<Rightarrow> call list \<times> (error + 'b)" where
  "and_then m f =
     (case m of
        (tr, Inl e) \<Rightarrow> (tr, Inl e)
      | (tr, Inr x) \<Rightarrow> (tr @ fst (f x), snd (f x)))"

text \<open>
  The inner loop of \<^verbatim>\<open>set_pre_state\<close>: for each entry of \<^verbatim>\<open>account["storage"]\<close>
  the key and the value go through \<^verbatim>\<open>f"0x{int(k, 16):064x}"\<close>.
\<close>

fun set_storage ::
  "'s provider \<Rightarrow> string \<Rightarrow> (string \<times> string) list \<Rightarrow> 's \<Rightarrow> call list \<times> (error + 's)" where
  "set_storage w3 address [] s = ([], Inr s)"
| "set_storage w3 address ((k, v) # kvs) s =
     (case py_int16 k of
        None \<Rightarrow> ([], Inl (InvalidLiteralError k))
      | Some kn \<Rightarrow>
          (case py_int16 v of
             None \<Rightarrow> ([], Inl (InvalidLiteralError v))
           | Some vn \<Rightarrow>
               (case request w3 ''anvil_setStorageAt''
                       [Str address, Str (''0x'' @ format_064x kn), Str (''0x'' @ format_064x vn)] s of
                  (tr, Inl e) \<Rightarrow> (tr, Inl e)
                | (tr, Inr s') \<Rightarrow>
                    (tr @ fst (set_storage w3 address kvs s'),
                     snd (set_storage w3 address kvs s')))))"

definition set_account ::
  "'s provider \<Rightarrow> string \<Rightarrow> account \<Rightarrow> 's \<Rightarrow> call list \<times> (error + 's)" where
  "set_account w3 address acc s =
     and_then (request w3 ''anvil_setCode'' [Str address, Str (code acc)] s) (\<lambda>s.
     and_then (request w3 ''anvil_setBalance'' [Str address, Str (balance acc)] s) (\<lambda>s.
     and_then (request w3 ''anvil_setNonce'' [Str address, Str (nonce acc)] s) (\<lambda>s.
     set_storage w3 address (storage acc) s)))"

fun set_pre_state ::
  "'s provider \<Rightarrow> (string \<times> account) list \<Rightarrow> 's \<Rightarrow> call list \<times> (error + 's)" where
  "set_pre_state w3 [] s = ([], Inr s)"
| "set_pre_state w3 ((address, acc) # rest) s =
     (case set_account w3 address acc s of
        (tr, Inl e) \<Rightarrow> (tr, Inl e)
      | (tr, Inr s') \<Rightarrow>
          (tr @ fst (set_pre_state w3 rest s'), snd (set_pre_state w3 rest s')))"

subsection \<open>The seeding calls as the specification words them\<close>

text \<open>
  The big-endian encoding of \<open>n\<close> on exactly \<open>w\<close> hexadecimal digits: the last digit is
  the least significant one.
\<close>

fun fixed_hex :: "nat \<Rightarrow> nat \<Rightarrow> string" where
  "fixed_hex 0 n = []"
| "fixed_hex (Suc w) n = fixed_hex w (n div 16) @ [hex_char (n mod 16)]"

text \<open>
  The number that a string of hexadecimal digits denotes, most significant digit first,
  continuing from \<open>z\<close>.
\<close>

definition hex_value :: "nat \<Rightarrow> string \<Rightarrow> nat" where
  "hex_value z ds = foldl (\<lambda>a c. 16 * a + the (hex_digit c)) z ds"

text \<open>A string that denotes an unsigned 256-bit integer, and the integer it denotes.\<close>

definition is_uint256 :: "string \<Rightarrow> bool" where
  "is_uint256 k = (case py_int16 k of None \<Rightarrow> False | Some n \<Rightarrow> 0 \<le> n \<and> n < 2 ^ 256)"

definition uint256_of :: "string \<Rightarrow> nat" where
  "uint256_of k = nat (the (py_int16 k))"

definition is_hex_digit :: "char \<Rightarrow> bool" where
  "is_hex_digit c = (hex_digit c \<noteq> None)"

text \<open>
  The calls of a complete seeding: for each account code, balance and nonce, then one
  call for each storage slot, with key and value on 32 bytes.
\<close>

definition seeding_requests :: "(string \<times> account) list \<Rightarrow> call list" where
  "seeding_requests accounts =
     concat (map (\<lambda>(address, acc).
        [MakeRequest ''anvil_setCode'' [Str address, Str (code acc)] True,
         MakeRequest ''anvil_setBalance'' [Str address, Str (balance acc)] True,
         MakeRequest ''anvil_setNonce'' [Str address, Str (nonce acc)] True] @
        map (\<lambda>(k, v).
               MakeRequest ''anvil_setStorageAt''
                 [Str address, Str (''0x'' @ fixed_hex 64 (uint256_of k)),
                  Str (''0x'' @ fixed_hex 64 (uint256_of v))] True)
          (storage acc)) accounts)"

section \<open>Block decoder and block context\<close>

text \<open>
  \<^verbatim>\<open>get_block\<close>. \<^verbatim>\<open>rlp.decode(_, CancunBlock)\<close> is a parameter, \<open>None\<close> where it
  raises; every exception of the body is replaced by the one of \<^verbatim>\<open>get_block\<close>.
\<close>

definition get_block :: "(byte list \<Rightarrow> block option) \<Rightarrow> test_vector \<Rightarrow> error + block" where
  "get_block rlp_decode data =
     (case blocks data of
        [] \<Rightarrow> Inl (BlockDecodeError ''Could not find block in test data'')
      | block_rlp # _ \<Rightarrow>
          (case bytes_fromhex (drop 2 block_rlp) of
             None \<Rightarrow> Inl (BlockDecodeError ''Could not find block in test data'')
           | Some bs \<Rightarrow>
               (case rlp_decode bs of
                  None \<Rightarrow> Inl (BlockDecodeError ''Could not find block in test data'')
                | Some blk \<Rightarrow> Inr blk)))"

definition set_block ::
  "'s provider \<Rightarrow> (byte list \<Rightarrow> block option) \<Rightarrow> test_vector \<Rightarrow> 's \<Rightarrow>
   call list \<times> (error + 's)" where
  "set_block w3 rlp_decode data s =
     (case get_block rlp_decode data of
        Inl e \<Rightarrow> ([], Inl e)
      | Inr blk \<Rightarrow>
          and_then
            (case transactions blk of
               [] \<Rightarrow> ([], Inr s)
             | tx # _ \<Rightarrow>
                 (case chain_id tx of
                    None \<Rightarrow> ([], Inr s)
                  | Some c \<Rightarrow> request w3 ''anvil_setChainId'' [Num c] s)) (\<lambda>s.
          and_then (request w3 ''anvil_setCoinbase'' [Str (bytes_hex (coinbase blk))] s) (\<lambda>s.
          and_then (request w3 ''anvil_setNextBlockBaseFeePerGas'' [Num (base_fee_per_gas blk)] s) (\<lambda>s.
          request w3 ''evm_setBlockGasLimit'' [Num (gas_limit blk)] s))))"

section \<open>Transaction replayer\<close>

text \<open>\<^verbatim>\<open>send_transaction\<close>: the encoded transaction is submitted, the hash comes back.\<close>

definition send_transaction :: "'s provider \<Rightarrow> transaction \<Rightarrow> 's \<Rightarrow> (string \<times> 's) option" where
  "send_transaction w3 tx s = send_raw_transaction w3 (encoded tx) s"

text \<open>
  The loop of \<^verbatim>\<open>main\<close> over \<^verbatim>\<open>block["transactions"]\<close>, which is the list
  \<^verbatim>\<open>block.transactions\<close>: \<^verbatim>\<open>send_transaction\<close>, then
  \<^verbatim>\<open>wait_for_transaction_receipt\<close> on the hash it returned, then the hash is appended
  to \<^verbatim>\<open>tx_hashes\<close>.
\<close>

fun send_loop ::
  "'s provider \<Rightarrow> transaction list \<Rightarrow> string list \<Rightarrow> 's \<Rightarrow>
   call list \<times> (error + string list \<times> 's)" where
  "send_loop w3 [] tx_hashes s = ([], Inr (tx_hashes, s))"
| "send_loop w3 (tx # txs) tx_hashes s =
     (case send_transaction w3 tx s of
        None \<Rightarrow> ([SendRawTransaction (encoded tx) None], Inl EnvironmentError)
      | Some (tx_hash, s1) \<Rightarrow>
          (case wait_for_transaction_receipt w3 tx_hash s1 of
             None \<Rightarrow>
               ([SendRawTransaction (encoded tx) (Some tx_hash),
                 WaitForTransactionReceipt tx_hash False],
                Inl EnvironmentError)
           | Some s2 \<Rightarrow>
               (SendRawTransaction (encoded tx) (Some tx_hash) #
                  WaitForTransactionReceipt tx_hash True #
                  fst (send_loop w3 txs (tx_hashes @ [tx_hash]) s2),
                snd (send_loop w3 txs (tx_hashes @ [tx_hash]) s2))))"

text \<open>
  The part of \<^verbatim>\<open>main\<close> under the comment \<^verbatim>\<open># Send transactions\<close>, on the decoded
  block: the check for an empty block, then the loop.
\<close>

definition send_transactions ::
  "'s provider \<Rightarrow> block \<Rightarrow> 's \<Rightarrow> call list \<times> (error + string list \<times> 's)" where
  "send_transactions w3 blk s =
     (if length (transactions blk) = 0
      then ([], Inl (EmptyBlockError ''Could not find transaction in test data''))
      else send_loop w3 (transactions blk) [] s)"

subsection \<open>Sequential replay as the specification words it\<close>

text \<open>
  The calls of a replay in which every submission and every confirmation returned: each
  transaction is submitted, then its receipt is awaited, before the next one.
\<close>

definition replay_trace :: "transaction list \<Rightarrow> string list \<Rightarrow> call list" where
  "replay_trace txs tx_hashes =
     concat (map2 (\<lambda>tx h. [SendRawTransaction (encoded tx) (Some h),
                           WaitForTransactionReceipt h True]) txs tx_hashes)"

text \<open>The calls that submit a transaction.\<close>

fun is_submission :: "call \<Rightarrow> bool" where
  "is_submission (SendRawTransaction raw r) = True"
| "is_submission c = False"

section \<open>The pipeline\<close>

text \<open>
  \<^verbatim>\<open>main\<close>, from the lookup of the vector to the check of the post-state. The
  constructor of \<^verbatim>\<open>AnvilHandler\<close> decodes the block for its timestamp and turns a
  failure into its own exception; \<^verbatim>\<open>connect_anvil\<close> raises when the node does not
  answer. The launch of the node's process, the \<^verbatim>\<open>cast run\<close> commands, the clipboard
  and the wait for a signal are not part of the model: on success it returns \<^verbatim>\<open>tx_hashes\<close>.
\<close>

definition connect_anvil :: "'s provider \<Rightarrow> 's \<Rightarrow> error + unit" where
  "connect_anvil w3 s =
     (if \<not> is_connected w3 s then Inl (NotConnectedError ''Not connected to anvil endpoint'')
      else Inr ())"

definition main ::
  "(string \<Rightarrow> test_vector option) \<Rightarrow> string list \<Rightarrow> (string \<Rightarrow> string) \<Rightarrow> string \<Rightarrow> string \<Rightarrow>
   (byte list \<Rightarrow> block option) \<Rightarrow> (string \<Rightarrow> string option) \<Rightarrow> string \<Rightarrow>
   's provider \<Rightarrow> 's \<Rightarrow> call list \<times> (error + string list)" where
  "main json_loads listdir read_text TEST_NAME TEST_PARENT_FOLDER
        rlp_decode to_checksum_address BEACON_ROOT_ADDRESS w3 s =
     (case get_test_file json_loads listdir read_text TEST_NAME TEST_PARENT_FOLDER of
        Inl e \<Rightarrow> ([], Inl e)
      | Inr test \<Rightarrow>
          (case get_block rlp_decode test of
             Inl e \<Rightarrow> ([], Inl (LaunchError ''Could not launch anvil''))
           | Inr _ \<Rightarrow>
               (case connect_anvil w3 s of
                  Inl e \<Rightarrow> ([], Inl e)
                | Inr _ \<Rightarrow>
                 and_then (set_pre_state w3 (pre test) s) (\<lambda>s.
                 and_then (set_block w3 rlp_decode test s) (\<lambda>s.
                 (case get_block rlp_decode test of
                    Inl e \<Rightarrow> ([], Inl e)
                  | Inr blk \<Rightarrow>
                      and_then (send_transactions w3 blk s) (\<lambda>(tx_hashes, s).
                      (case check_post_state to_checksum_address BEACON_ROOT_ADDRESS w3 s
                              (postState test) of
                         Inl e \<Rightarrow> ([], Inl e)
                       | Inr _ \<Rightarrow> ([], Inr tx_hashes)))))))))"

section \<open>A small node and a small vector\<close>

text \<open>
  A node whose state is the number of transactions it has included. Every account has
  balance 100, the nonce is the number of transactions, there is no code, and every
  storage slot holds 1, but for the account \<^verbatim>\<open>0xbeac\<close>, whose balance is 7.
\<close>

definition example_provider :: "nat provider" where
  "example_provider =
     \<lparr>is_connected = (\<lambda>s. True),
      make_request = (\<lambda>method params s. Some s),
      send_raw_transaction = (\<lambda>raw s. Some (''0x'' @ bytes_hex raw, Suc s)),
      wait_for_transaction_receipt = (\<lambda>h s. Some s),
      get_balance = (\<lambda>s a. if a = ''0xbeac'' then 7 else 100),
      get_transaction_count = (\<lambda>s a. int s),
      get_code = (\<lambda>s a. []),
      get_storage_at = (\<lambda>s a k. replicate 31 0 @ [1])\<rparr>"

text \<open>
  A node whose state counts what it has done: a request adds 100, a submission adds 1 and
  a completed wait adds 10. The hash of a submission ends with the state it was made in.
\<close>

definition example_ledger :: "nat provider" where
  "example_ledger =
     \<lparr>is_connected = (\<lambda>s. True),
      make_request = (\<lambda>method params s. Some (s + 100)),
      send_raw_transaction = (\<lambda>raw s. Some (''0x'' @ bytes_hex raw @ to_hex s, s + 1)),
      wait_for_transaction_receipt = (\<lambda>h s. Some (s + 10)),
      get_balance = (\<lambda>s a. 100),
      get_transaction_count = (\<lambda>s a. int s),
      get_code = (\<lambda>s a. []),
      get_storage_at = (\<lambda>s a k. replicate 31 0 @ [1])\<rparr>"

definition example_account :: "string \<Rightarrow> account" where
  "example_account b =
     \<lparr>code = ''0x'', balance = b, nonce = ''0x02'', storage = [(''0x00'', ''0x0001'')]\<rparr>"

definition example_transactions :: "transaction list" where
  "example_transactions =
     [\<lparr>chain_id = Some 1, encoded = [0x01]\<rparr>, \<lparr>chain_id = Some 1, encoded = [0x02]\<rparr>]"

definition example_block :: "transaction list \<Rightarrow> block" where
  "example_block txs =
     \<lparr>timestamp = 1000, coinbase = [0xC0], base_fee_per_gas = 10, gas_limit = 30000000,
      transactions = txs\<rparr>"

definition example_vector :: test_vector where
  "example_vector =
     \<lparr>pre = [(''0xa1'', example_account ''0x60'')], blocks = [''0xc0''],
      postState = [(''0xa1'', example_account ''0x64'')]\<rparr>"

definition example_json_loads :: "string \<Rightarrow> test_vector option" where
  "example_json_loads text = (if text = ''vector'' then Some example_vector else None)"
section \<open>Properties of the vector loader\<close>

lemma filter_unique_match:
  assumes "distinct xs" "x \<in> set xs" "P x" "\<And>y. y \<in> set xs \<Longrightarrow> P y \<Longrightarrow> y = x"
  shows "filter P xs = [x]"
  using assms
proof (induction xs)
  case Nil
  then show ?case by simp
next
  case (Cons a xs)
  show ?case
  proof (cases "a = x")
    case True
    have "x \<notin> set xs" using Cons.prems(1) True by simp
    have "filter P xs = []"
    proof (rule ccontr)
      assume "filter P xs \<noteq> []"
      then obtain y where "y \<in> set (filter P xs)" by (cases "filter P xs") auto
      then have "y \<in> set xs" "P y" by auto
      then have "y = x" using Cons.prems(4) by simp
      with \<open>y \<in> set xs\<close> \<open>x \<notin> set xs\<close> show False by simp
    qed
    then show ?thesis using True Cons.prems(3) by simp
  next
    case False
    then have "x \<in> set xs" using Cons.prems(2) by simp
    moreover have "distinct xs" using Cons.prems(1) by simp
    ultimately have "filter P xs = [x]"
      using Cons.prems(3,4) by (intro Cons.IH) simp_all
    moreover have "\<not> P a" using Cons.prems(4)[of a] False by auto
    ultimately show ?thesis by simp
  qed
qed

lemma filter_two_matches:
  assumes "x \<in> set xs" "y \<in> set xs" "x \<noteq> y" "P x" "P y"
  shows "1 < length (filter P xs)"
proof -
  have "{x, y} \<subseteq> set (filter P xs)" using assms by simp
  then have "card {x, y} \<le> card (set (filter P xs))" by (intro card_mono) simp_all
  also have "\<dots> \<le> length (filter P xs)" by (rule card_length)
  finally show ?thesis using assms(3) by simp
qed

lemma get_test_file_single:
  assumes "[f \<leftarrow> listdir. sublist name f \<and> sublist folder f] = [fname]"
  shows "get_test_file json_loads listdir read_text name folder =
           (case json_loads (read_text fname) of None \<Rightarrow> Inl JSONDecodeError | Some v \<Rightarrow> Inr v)"
  using assms by (simp add: get_test_file_def)

text \<open>
  C7. When exactly one name of the directory contains the test name and the folder, and
  the text of that file is a valid vector, \<open>get_test_file\<close> returns the vector that
  \<^verbatim>\<open>json.loads\<close> gives for this text.
\<close>

theorem get_test_file_unique_match:
  assumes "distinct listdir" "fname \<in> set listdir"
    and "sublist name fname" "sublist folder fname"
    and "\<forall>g \<in> set listdir. sublist name g \<and> sublist folder g \<longrightarrow> g = fname"
    and "json_loads (read_text fname) = Some v"
  shows "get_test_file json_loads listdir read_text name folder = Inr v"
proof -
  have "[f \<leftarrow> listdir. sublist name f \<and> sublist folder f] = [fname]"
  proof (rule filter_unique_match)
    show "distinct listdir" by (rule assms(1))
    show "fname \<in> set listdir" by (rule assms(2))
    show "sublist name fname \<and> sublist folder fname" using assms(3,4) by simp
    show "y = fname" if "y \<in> set listdir" "sublist name y \<and> sublist folder y" for y
      using assms(5) that by blast
  qed
  from get_test_file_single[OF this, of json_loads read_text]
  show ?thesis by (simp add: assms(6))
qed

theorem get_test_file_unique_match_witness:
  "get_test_file example_json_loads [''add_d0g0v0_Cancun.json'', ''sub_d0g0v0_Cancun.json'']
     (\<lambda>f. ''vector'') ''add'' [] = Inr example_vector"
proof (rule get_test_file_unique_match[where fname = "''add_d0g0v0_Cancun.json''"])
  show "distinct [''add_d0g0v0_Cancun.json'', ''sub_d0g0v0_Cancun.json'']" by simp
  show "''add_d0g0v0_Cancun.json'' \<in> set [''add_d0g0v0_Cancun.json'', ''sub_d0g0v0_Cancun.json'']"
    by simp
  show "sublist ''add'' ''add_d0g0v0_Cancun.json''" by code_simp
  show "sublist [] ''add_d0g0v0_Cancun.json''" by simp
  show "\<forall>g \<in> set [''add_d0g0v0_Cancun.json'', ''sub_d0g0v0_Cancun.json''].
          sublist ''add'' g \<and> sublist [] g \<longrightarrow> g = ''add_d0g0v0_Cancun.json''"
    by code_simp
  show "example_json_loads ''vector'' = Some example_vector"
    by (simp add: example_json_loads_def)
qed

text \<open>
  C8. When no name of the directory contains both the test name and the folder,
  \<open>get_test_file\<close> fails: with the error of an invalid name when the test name is longer
  than 255 characters, with the error of a test not found otherwise.
\<close>

theorem get_test_file_no_match:
  assumes "\<forall>f \<in> set listdir. \<not> (sublist name f \<and> sublist folder f)"
  shows "get_test_file json_loads listdir read_text name folder =
           (if length name > 255 then Inl (InvalidNameError (name_too_long_msg name))
            else Inl (NotFoundError (not_found_hint_msg name)))"
proof -
  have "[f \<leftarrow> listdir. sublist name f \<and> sublist folder f] = []"
    using assms by (simp add: filter_empty_conv)
  then show ?thesis by (simp add: get_test_file_def)
qed

theorem get_test_file_no_match_witness:
  "get_test_file example_json_loads [''add_d0g0v0_Cancun.json'', ''sub_d0g0v0_Cancun.json'']
     (\<lambda>f. ''vector'') ''mul'' [] = Inl (NotFoundError (not_found_hint_msg ''mul'')) \<and>
   get_test_file example_json_loads [''add_d0g0v0_Cancun.json'', ''sub_d0g0v0_Cancun.json'']
     (\<lambda>f. ''vector'') (replicate 256 (CHR ''m'')) [] =
     Inl (InvalidNameError (name_too_long_msg (replicate 256 (CHR ''m''))))"
proof -
  have short: "\<forall>f \<in> set [''add_d0g0v0_Cancun.json'', ''sub_d0g0v0_Cancun.json''].
                 \<not> (sublist ''mul'' f \<and> sublist [] f)"
    by code_simp
  have "\<not> sublist (replicate 256 (CHR ''m'')) f" if "length f < 256" for f :: string
  proof
    assume "sublist (replicate 256 (CHR ''m'')) f"
    then have "length (replicate 256 (CHR ''m'')) \<le> length f"
      by (rule sublist_length_le)
    with that show False by simp
  qed
  then have long: "\<forall>f \<in> set [''add_d0g0v0_Cancun.json'', ''sub_d0g0v0_Cancun.json''].
                 \<not> (sublist (replicate 256 (CHR ''m'')) f \<and> sublist [] f)"
    by simp
  show ?thesis
    using get_test_file_no_match[OF short, of example_json_loads "\<lambda>f. ''vector''"]
      get_test_file_no_match[OF long, of example_json_loads "\<lambda>f. ''vector''"]
    by simp
qed

text \<open>
  C9. When two different names of the directory contain both the test name and the folder,
  \<open>get_test_file\<close> fails: with the error of an ambiguous test when the folder is the
  empty string, with the error of a test not found otherwise.
\<close>

theorem get_test_file_many_matches:
  assumes "f \<in> set listdir" "g \<in> set listdir" "f \<noteq> g"
    and "sublist name f \<and> sublist folder f" "sublist name g \<and> sublist folder g"
  shows "get_test_file json_loads listdir read_text name folder =
           (if folder = [] then Inl (AmbiguousTestError (ambiguous_msg name))
            else Inl (NotFoundError (not_found_msg name)))"
proof -
  define tests where "tests = [h \<leftarrow> listdir. sublist name h \<and> sublist folder h]"
  have "1 < length tests"
    unfolding tests_def
    by (rule filter_two_matches[of f _ g]) (use assms in simp_all)
  moreover have "get_test_file json_loads listdir read_text name folder =
      (if length tests = 0 then
           (if length name > 255 then Inl (InvalidNameError (name_too_long_msg name))
            else Inl (NotFoundError (not_found_hint_msg name)))
         else if length tests > 1 then
           (if folder = [] then Inl (AmbiguousTestError (ambiguous_msg name))
            else Inl (NotFoundError (not_found_msg name)))
         else (case json_loads (read_text (tests ! 0)) of
                 None \<Rightarrow> Inl JSONDecodeError
               | Some v \<Rightarrow> Inr v))"
    unfolding tests_def get_test_file_def Let_def ..
  ultimately show ?thesis by auto
qed

theorem get_test_file_many_matches_witness:
  "get_test_file example_json_loads [''stA_add_Cancun.json'', ''stB_add_Cancun.json'']
     (\<lambda>f. ''vector'') ''add'' [] = Inl (AmbiguousTestError (ambiguous_msg ''add'')) \<and>
   get_test_file example_json_loads [''stA_add_Cancun.json'', ''stB_add_Cancun.json'']
     (\<lambda>f. ''vector'') ''add'' ''st'' = Inl (NotFoundError (not_found_msg ''add''))"
proof -
  have m: "''stA_add_Cancun.json'' \<in> set [''stA_add_Cancun.json'', ''stB_add_Cancun.json'']"
      "''stB_add_Cancun.json'' \<in> set [''stA_add_Cancun.json'', ''stB_add_Cancun.json'']"
      "''stA_add_Cancun.json'' \<noteq> ''stB_add_Cancun.json''"
    by simp_all
  have a: "sublist ''add'' ''stA_add_Cancun.json'' \<and> sublist [] ''stA_add_Cancun.json''"
       "sublist ''add'' ''stB_add_Cancun.json'' \<and> sublist [] ''stB_add_Cancun.json''"
    by code_simp+
  have b: "sublist ''add'' ''stA_add_Cancun.json'' \<and> sublist ''st'' ''stA_add_Cancun.json''"
       "sublist ''add'' ''stB_add_Cancun.json'' \<and> sublist ''st'' ''stB_add_Cancun.json''"
    by code_simp+
  show ?thesis
    using get_test_file_many_matches[OF m a, of example_json_loads "\<lambda>f. ''vector''"]
      get_test_file_many_matches[OF m b, of example_json_loads "\<lambda>f. ''vector''"]
    by simp
qed

text \<open>
  C10. The length of the test name is looked at only when nothing matches: with a test
  name longer than 255 characters and exactly one matching name whose text is a valid
  vector, \<open>get_test_file\<close> returns that vector and does not fail with the error of an
  invalid name.
\<close>

theorem get_test_file_long_name_unique_match:
  assumes "length name > 255"
    and "distinct listdir" "fname \<in> set listdir"
    and "sublist name fname" "sublist folder fname"
    and "\<forall>g \<in> set listdir. sublist name g \<and> sublist folder g \<longrightarrow> g = fname"
    and "json_loads (read_text fname) = Some v"
  shows "get_test_file json_loads listdir read_text name folder = Inr v \<and>
         (\<forall>m. get_test_file json_loads listdir read_text name folder \<noteq> Inl (InvalidNameError m))"
proof -
  have "[f \<leftarrow> listdir. sublist name f \<and> sublist folder f] = [fname]"
  proof (rule filter_unique_match)
    show "distinct listdir" by (rule assms(2))
    show "fname \<in> set listdir" by (rule assms(3))
    show "sublist name fname \<and> sublist folder fname" using assms(4,5) by simp
    show "y = fname" if "y \<in> set listdir" "sublist name y \<and> sublist folder y" for y
      using assms(6) that by blast
  qed
  from get_test_file_single[OF this, of json_loads read_text]
  show ?thesis by (simp add: assms(7))
qed

theorem get_test_file_long_name_unique_match_witness:
  "get_test_file example_json_loads [replicate 256 (CHR ''m'') @ ''.json'', ''sub.json'']
     (\<lambda>f. ''vector'') (replicate 256 (CHR ''m'')) [] = Inr example_vector"
proof -
  let ?name = "replicate 256 (CHR ''m'')"
  have sub: "\<not> sublist ?name ''sub.json''"
  proof
    assume "sublist ?name ''sub.json''"
    then have "length ?name \<le> length ''sub.json''" by (rule sublist_length_le)
    then show False by simp
  qed
  have "get_test_file example_json_loads [?name @ ''.json'', ''sub.json'']
          (\<lambda>f. ''vector'') ?name [] = Inr example_vector \<and>
        (\<forall>m. get_test_file example_json_loads [?name @ ''.json'', ''sub.json'']
          (\<lambda>f. ''vector'') ?name [] \<noteq> Inl (InvalidNameError m))"
  proof (rule get_test_file_long_name_unique_match[where fname = "?name @ ''.json''"])
    show "255 < length ?name" by simp
    show "distinct [?name @ ''.json'', ''sub.json'']"
    proof -
      have "length (?name @ ''.json'') \<noteq> length ''sub.json''" by simp
      then have "?name @ ''.json'' \<noteq> ''sub.json''" by fastforce
      then show ?thesis by simp
    qed
    show "?name @ ''.json'' \<in> set [?name @ ''.json'', ''sub.json'']" by simp
    show "sublist ?name (?name @ ''.json'')" by simp
    show "sublist [] (?name @ ''.json'')" by simp
    show "\<forall>g \<in> set [?name @ ''.json'', ''sub.json''].
            sublist ?name g \<and> sublist [] g \<longrightarrow> g = ?name @ ''.json''"
      using sub by simp
    show "example_json_loads ((\<lambda>f. ''vector'') (?name @ ''.json'')) = Some example_vector"
      by (simp add: example_json_loads_def)
  qed
  then show ?thesis by simp
qed

section \<open>Properties of the post-state verifier\<close>

lemma find_append_cases:
  "find P (xs @ ys) = (case find P xs of None \<Rightarrow> find P ys | Some x \<Rightarrow> Some x)"
  by (induction xs) simp_all

lemma find_map_Pair:
  "find (\<lambda>(a, f, actual, expected). actual \<noteq> expected) (map (Pair a) cs) =
     map_option (Pair a) (find (\<lambda>(f, actual, expected). actual \<noteq> expected) cs)"
  by (induction cs) auto

lemma check_storage_expected:
  "expected_storage kvs = Some st \<Longrightarrow>
   check_storage w3 s a kvs =
     mismatch_result (find (\<lambda>(f, actual, expected). actual \<noteq> expected)
       (map (\<lambda>(k, n). (Storage k, IntV (int_from_bytes_big (get_storage_at w3 s a k)), IntV n)) st))"
proof (induction kvs arbitrary: st)
  case Nil
  then show ?case by (simp add: mismatch_result_def)
next
  case (Cons kv kvs)
  obtain k v where kv: "kv = (k, v)" by (cases kv)
  from Cons.prems kv obtain n st' where
    n: "py_int16 v = Some n" and st': "expected_storage kvs = Some st'" and st: "st = (k, n) # st'"
    by (auto split: option.splits)
  show ?case
    using Cons.IH[OF st'] by (simp add: kv n st mismatch_result_def)
qed

lemma check_account_expected:
  assumes "expected_of acc = Some e"
  shows "check_account w3 s a acc =
     mismatch_result (find (\<lambda>(f, actual, expected). actual \<noteq> expected) (comparisons w3 s a e))"
proof -
  from assms obtain b n c st where
    b: "py_int16 (balance acc) = Some b" and n: "py_int16 (nonce acc) = Some n" and
    c: "bytes_fromhex (drop 2 (code acc)) = Some c" and
    st: "expected_storage (storage acc) = Some st" and
    e: "e = \<lparr>exp_balance = b, exp_nonce = n, exp_code = c, exp_storage = st\<rparr>"
    by (auto simp: expected_of_def split: option.splits)
  show ?thesis
    using check_storage_expected[OF st, of w3 s a]
    by (simp add: check_account_def b n c e comparisons_def mismatch_result_def)
qed

lemma first_mismatch_Cons:
  "first_mismatch w3 s ((a, e) # accounts) =
     (case find (\<lambda>(f, actual, expected). actual \<noteq> expected) (comparisons w3 s a e) of
        None \<Rightarrow> first_mismatch w3 s accounts
      | Some c \<Rightarrow> Some (a, c))"
  by (simp add: first_mismatch_def all_comparisons_def find_append_cases find_map_Pair
      split: option.splits)

text \<open>
  C1. On a post-state whose addresses have a checksummed form and whose compared accounts
  hold convertible strings, \<open>check_post_state\<close> goes through the comparisons account after
  account, in the order balance, nonce, code, storage slots, and skips the system address.
  It fails at the first comparison whose live value differs from the expected one, with the
  error that carries the address, the field, the live value and the expected value; it
  succeeds when no comparison differs.
\<close>

theorem check_post_state_first_mismatch:
  assumes "to_checksum_address BEACON_ROOT_ADDRESS = Some beacon"
    and "\<forall>entry \<in> set post. well_formed_entry to_checksum_address BEACON_ROOT_ADDRESS entry"
  shows "check_post_state to_checksum_address BEACON_ROOT_ADDRESS w3 s post =
     (case first_mismatch w3 s (compared_accounts to_checksum_address BEACON_ROOT_ADDRESS post) of
        None \<Rightarrow> Inr ()
      | Some (a, f, actual, expected) \<Rightarrow>
          Inl (StateMismatchError a (AssertionError f actual expected)))"
  using assms(2)
proof (induction post)
  case Nil
  then show ?case
    by (simp add: first_mismatch_def compared_accounts_def all_comparisons_def)
next
  case (Cons entry post)
  let ?cs = "to_checksum_address" and ?B = "BEACON_ROOT_ADDRESS"
  obtain address acc where entry: "entry = (address, acc)" by (cases entry)
  from Cons.prems entry obtain a where a: "?cs address = Some a"
    and wf: "a = beacon \<or> expected_of acc \<noteq> None"
    by (auto simp: well_formed_entry_def assms(1) split: option.splits)
  have IH: "check_post_state ?cs ?B w3 s post =
     (case first_mismatch w3 s (compared_accounts ?cs ?B post) of
        None \<Rightarrow> Inr ()
      | Some (a, f, actual, expected) \<Rightarrow>
          Inl (StateMismatchError a (AssertionError f actual expected)))"
    using Cons by simp
  show ?case
  proof (cases "a = beacon")
    case True
    then have "compared_accounts ?cs ?B ((address, acc) # post) = compared_accounts ?cs ?B post"
      by (simp add: compared_accounts_def a assms(1) split: option.splits)
    then show ?thesis unfolding entry using True IH by (simp add: a assms(1))
  next
    case False
    with wf obtain e where e: "expected_of acc = Some e" by auto
    have ca: "compared_accounts ?cs ?B ((address, acc) # post) =
                (a, e) # compared_accounts ?cs ?B post"
      using False by (simp add: compared_accounts_def a e assms(1))
    show ?thesis
      unfolding entry ca first_mismatch_Cons
      using False IH
      by (simp add: a assms(1) check_account_expected[OF e] mismatch_result_def
          split: option.splits)
  qed
qed

theorem check_post_state_first_mismatch_witness:
  "check_post_state Some ''0xbeac'' example_provider 2
     [(''0xa1'', example_account ''0x64''), (''0xbeac'', example_account ''0x64''),
      (''0xa2'', example_account ''0x65''), (''0xa3'', example_account ''0x66'')] =
     Inl (StateMismatchError ''0xa2'' (AssertionError Balance (IntV 100) (IntV 101))) \<and>
   check_post_state Some ''0xbeac'' example_provider 2
     [(''0xa1'', example_account ''0x64''), (''0xbeac'', example_account ''0x65'')] = Inr ()"
proof -
  let ?post1 = "[(''0xa1'', example_account ''0x64''), (''0xbeac'', example_account ''0x64''),
      (''0xa2'', example_account ''0x65''), (''0xa3'', example_account ''0x66'')]"
  let ?post2 = "[(''0xa1'', example_account ''0x64''), (''0xbeac'', example_account ''0x65'')]"
  have b: "Some ''0xbeac'' = Some ''0xbeac''" by simp
  have wf1: "\<forall>entry \<in> set ?post1. well_formed_entry Some ''0xbeac'' entry" by code_simp
  have wf2: "\<forall>entry \<in> set ?post2. well_formed_entry Some ''0xbeac'' entry" by code_simp
  have m1: "first_mismatch example_provider 2 (compared_accounts Some ''0xbeac'' ?post1) =
              Some (''0xa2'', Balance, IntV 100, IntV 101)"
    by code_simp
  have m2: "first_mismatch example_provider 2 (compared_accounts Some ''0xbeac'' ?post2) = None"
    by code_simp
  show ?thesis
    using check_post_state_first_mismatch[OF b wf1, of example_provider 2]
      check_post_state_first_mismatch[OF b wf2, of example_provider 2]
    by (simp only: m1 m2 option.case prod.case simp_thms)
qed

lemma check_storage_Inr:
  "check_storage w3 s a kvs = Inr u \<Longrightarrow> expected_storage kvs \<noteq> None"
proof (induction kvs)
  case Nil
  then show ?case by simp
next
  case (Cons kv kvs)
  obtain k v where kv: "kv = (k, v)" by (cases kv)
  from Cons.prems obtain n where n: "py_int16 v = Some n"
    and rest: "check_storage w3 s a kvs = Inr u"
    by (auto simp: kv split: option.splits if_splits)
  from Cons.IH[OF rest] show ?case by (auto simp: kv n)
qed

lemma check_account_Inr:
  assumes "check_account w3 s a acc = Inr u"
  shows "expected_of acc \<noteq> None"
proof -
  from assms obtain b n c where
    "py_int16 (balance acc) = Some b" "py_int16 (nonce acc) = Some n"
    "bytes_fromhex (drop 2 (code acc)) = Some c"
    "check_storage w3 s a (storage acc) = Inr u"
    by (auto simp: check_account_def split: option.splits if_splits)
  then show ?thesis
    using check_storage_Inr[of w3 s a "storage acc" u] by (auto simp: expected_of_def)
qed

lemma mismatch_result_Inr:
  "mismatch_result (find P cs) = Inr u \<longleftrightarrow> (\<forall>c \<in> set cs. \<not> P c)"
proof -
  have "mismatch_result m = Inr u \<longleftrightarrow> m = None" for m
    by (auto simp: mismatch_result_def split: option.splits)
  moreover have "find P cs = None \<longleftrightarrow> (\<forall>c \<in> set cs. \<not> P c)"
    by (auto simp: find_None_iff)
  ultimately show ?thesis by simp
qed

lemma check_storage_Inl:
  "check_storage w3 s a kvs = Inl e \<Longrightarrow>
     (\<exists>k x y. e = AssertionError (Storage k) x y) \<or> (\<exists>v. e = InvalidLiteral v)"
proof (induction kvs)
  case Nil
  then show ?case by simp
next
  case (Cons kv kvs)
  obtain k v where kv: "kv = (k, v)" by (cases kv)
  from Cons show ?case by (auto simp: kv split: option.splits if_splits)
qed

lemma py_int16_0x64: "py_int16 ''0x64'' = Some 100"
  by code_simp

lemma bytes_value_bound:
  "foldl (\<lambda>a b. 256 * a + unat (b :: byte)) 0 bs < 256 ^ length bs"
proof (induction bs rule: rev_induct)
  case Nil
  then show ?case by simp
next
  case (snoc b bs)
  have "unat b < 256" using unsigned_less[of b, where ?'a = nat] by simp
  with snoc show ?case by simp
qed

text \<open>
  C2. The check of one account succeeds exactly when each string of the expected account
  can be converted and the live balance, nonce, code and storage slots equal the converted
  values; two expected accounts with the same converted values are checked alike, whatever
  their strings; a live storage slot of 32 bytes is read as an integer from 0 to
  \<open>2 ^ 256 - 1\<close>. With the expected balance \<^verbatim>\<open>0x64\<close>, a live balance of 100 raises no
  balance mismatch, and a live balance of 101 fails with the mismatch of the balance, live
  value 101 and expected value 100.
\<close>

theorem check_account_by_value:
  "(check_account w s a acc = Inr () \<longleftrightarrow>
      (\<exists>e. expected_of acc = Some e \<and>
           get_balance w s a = exp_balance e \<and>
           get_transaction_count w s a = exp_nonce e \<and>
           get_code w s a = exp_code e \<and>
           (\<forall>(k, n) \<in> set (exp_storage e). int_from_bytes_big (get_storage_at w s a k) = n))) \<and>
   (expected_of acc \<noteq> None \<and> expected_of acc' = expected_of acc \<longrightarrow>
      check_account w s a acc' = check_account w s a acc) \<and>
   (0 \<le> int_from_bytes_big bs \<and> (length bs = 32 \<longrightarrow> int_from_bytes_big bs < 2 ^ 256)) \<and>
   (balance acc = ''0x64'' \<and> get_balance w s a = 100 \<longrightarrow>
      (\<forall>x y. check_account w s a acc \<noteq> Inl (AssertionError Balance x y))) \<and>
   (balance acc = ''0x64'' \<and> get_balance w s a = 101 \<longrightarrow>
      check_account w s a acc = Inl (AssertionError Balance (IntV 101) (IntV 100)) \<and>
      (to_checksum_address address = Some a \<and>
       to_checksum_address BEACON_ROOT_ADDRESS = Some beacon \<and> a \<noteq> beacon \<longrightarrow>
         check_post_state to_checksum_address BEACON_ROOT_ADDRESS w s ((address, acc) # rest) =
           Inl (StateMismatchError a (AssertionError Balance (IntV 101) (IntV 100)))))"
proof -
  have c1: "check_account w s a acc = Inr () \<longleftrightarrow>
      (\<exists>e. expected_of acc = Some e \<and>
           get_balance w s a = exp_balance e \<and>
           get_transaction_count w s a = exp_nonce e \<and>
           get_code w s a = exp_code e \<and>
           (\<forall>(k, n) \<in> set (exp_storage e). int_from_bytes_big (get_storage_at w s a k) = n))"
  proof (cases "expected_of acc")
    case None
    then show ?thesis using check_account_Inr[of w s a acc "()"] by auto
  next
    case (Some e)
    show ?thesis
      unfolding check_account_expected[OF Some] mismatch_result_Inr
      by (auto simp: Some comparisons_def)
  qed
  have c2: "expected_of acc \<noteq> None \<and> expected_of acc' = expected_of acc \<longrightarrow>
      check_account w s a acc' = check_account w s a acc"
  proof (intro impI, elim conjE)
    assume "expected_of acc \<noteq> None" and eq: "expected_of acc' = expected_of acc"
    then obtain e where e: "expected_of acc = Some e" by auto
    with eq have e': "expected_of acc' = Some e" by simp
    show "check_account w s a acc' = check_account w s a acc"
      by (simp only: check_account_expected[OF e] check_account_expected[OF e'])
  qed
  have "int_from_bytes_big bs < 2 ^ 256" if "length bs = 32"
  proof -
    have "foldl (\<lambda>a b. 256 * a + unat b) 0 bs < 256 ^ 32"
      using bytes_value_bound[of bs] that by simp
    then have "int (foldl (\<lambda>a b. 256 * a + unat b) 0 bs) < int (256 ^ 32)"
      by (simp only: of_nat_less_iff)
    then show ?thesis by (simp add: int_from_bytes_big_def)
  qed
  then have c3: "0 \<le> int_from_bytes_big bs" "length bs = 32 \<longrightarrow> int_from_bytes_big bs < 2 ^ 256"
    by (simp_all add: int_from_bytes_big_def)
  have c4: "balance acc = ''0x64'' \<and> get_balance w s a = 100 \<longrightarrow>
      (\<forall>x y. check_account w s a acc \<noteq> Inl (AssertionError Balance x y))"
  proof (intro impI allI, elim conjE)
    fix x y
    assume bal: "balance acc = ''0x64''" and live: "get_balance w s a = 100"
    have "check_account w s a acc \<noteq> Inl (AssertionError Balance x y)"
      using check_storage_Inl[of w s a "storage acc" "AssertionError Balance x y"]
      by (auto simp: check_account_def bal live py_int16_0x64 split: option.splits)
    then show "check_account w s a acc \<noteq> Inl (AssertionError Balance x y)" .
  qed
  have c5: "balance acc = ''0x64'' \<and> get_balance w s a = 101 \<longrightarrow>
      check_account w s a acc = Inl (AssertionError Balance (IntV 101) (IntV 100)) \<and>
      (to_checksum_address address = Some a \<and>
       to_checksum_address BEACON_ROOT_ADDRESS = Some beacon \<and> a \<noteq> beacon \<longrightarrow>
         check_post_state to_checksum_address BEACON_ROOT_ADDRESS w s ((address, acc) # rest) =
           Inl (StateMismatchError a (AssertionError Balance (IntV 101) (IntV 100))))"
    by (simp add: check_account_def py_int16_0x64)
  show ?thesis by (intro conjI c1 c2 c3 c4 c5)
qed

theorem check_account_by_value_witness:
  "check_account example_provider 2 ''0xa1'' (example_account ''0x64'') = Inr () \<and>
   check_account example_provider 2 ''0xa1'' (example_account ''0x0064'') =
     check_account example_provider 2 ''0xa1'' (example_account ''0x64'') \<and>
   int_from_bytes_big (get_storage_at example_provider 2 ''0xa1'' ''0x00'') < 2 ^ 256 \<and>
   (\<forall>x y. check_account example_provider 2 ''0xa1'' (example_account ''0x64'') \<noteq>
      Inl (AssertionError Balance x y)) \<and>
   check_account (example_provider\<lparr>get_balance := \<lambda>s a. 101\<rparr>) 2 ''0xa1'' (example_account ''0x64'') =
     Inl (AssertionError Balance (IntV 101) (IntV 100)) \<and>
   check_post_state Some ''0xbeac'' (example_provider\<lparr>get_balance := \<lambda>s a. 101\<rparr>) 2
     [(''0xa1'', example_account ''0x64'')] =
     Inl (StateMismatchError ''0xa1'' (AssertionError Balance (IntV 101) (IntV 100)))"
proof -
  let ?acc = "example_account ''0x64''" and ?acc' = "example_account ''0x0064''"
  let ?e = "\<lparr>exp_balance = 100, exp_nonce = 2, exp_code = [], exp_storage = [(''0x00'', 1)]\<rparr>"
  let ?w101 = "example_provider\<lparr>get_balance := \<lambda>s a. 101\<rparr>"
  let ?bs = "get_storage_at example_provider 2 ''0xa1'' ''0x00''"
  note live = check_account_by_value[where w = example_provider and s = 2 and a = "''0xa1''"
      and acc = ?acc and acc' = ?acc' and bs = ?bs and to_checksum_address = Some
      and address = "''0xa1''" and BEACON_ROOT_ADDRESS = "''0xbeac''" and beacon = "''0xbeac''"
      and rest = "[]"]
  note off = check_account_by_value[where w = ?w101 and s = 2 and a = "''0xa1''"
      and acc = ?acc and acc' = ?acc' and bs = ?bs and to_checksum_address = Some
      and address = "''0xa1''" and BEACON_ROOT_ADDRESS = "''0xbeac''" and beacon = "''0xbeac''"
      and rest = "[]"]
  have e: "expected_of ?acc = Some ?e" by code_simp
  have e': "expected_of ?acc' = expected_of ?acc" by code_simp
  have reads: "get_balance example_provider 2 ''0xa1'' = exp_balance ?e"
    "get_transaction_count example_provider 2 ''0xa1'' = exp_nonce ?e"
    "get_code example_provider 2 ''0xa1'' = exp_code ?e"
    "\<forall>(k, n) \<in> set (exp_storage ?e).
        int_from_bytes_big (get_storage_at example_provider 2 ''0xa1'' k) = n"
    by code_simp+
  have len: "length ?bs = 32" by code_simp
  have bal: "balance ?acc = ''0x64''" by (simp add: example_account_def)
  have b100: "get_balance example_provider 2 ''0xa1'' = 100" by code_simp
  have b101: "get_balance ?w101 2 ''0xa1'' = 101" by simp
  have addr: "Some ''0xa1'' = Some ''0xa1'' \<and> Some ''0xbeac'' = Some ''0xbeac'' \<and> ''0xa1'' \<noteq> ''0xbeac''"
    by simp
  have "check_account example_provider 2 ''0xa1'' ?acc = Inr ()"
    using live e reads by blast
  moreover have "check_account example_provider 2 ''0xa1'' ?acc' =
      check_account example_provider 2 ''0xa1'' ?acc"
    using live e e' by simp
  moreover have "int_from_bytes_big ?bs < 2 ^ 256"
    using live len by blast
  moreover have "\<forall>x y. check_account example_provider 2 ''0xa1'' ?acc \<noteq>
      Inl (AssertionError Balance x y)"
    using live bal b100 by blast
  moreover have "check_account ?w101 2 ''0xa1'' ?acc =
      Inl (AssertionError Balance (IntV 101) (IntV 100))"
    using off bal b101 by blast
  moreover have "check_post_state Some ''0xbeac'' ?w101 2 [(''0xa1'', ?acc)] =
      Inl (StateMismatchError ''0xa1'' (AssertionError Balance (IntV 101) (IntV 100)))"
    using off bal b101 addr by blast
  ultimately show ?thesis by (intro conjI)
qed

lemma check_storage_reads:
  assumes "\<forall>k. get_storage_at w s a k = get_storage_at w' s' a k"
  shows "check_storage w s a kvs = check_storage w' s' a kvs"
proof (induction kvs)
  case Nil
  then show ?case by simp
next
  case (Cons kv kvs)
  obtain k v where kv: "kv = (k, v)" by (cases kv)
  show ?case using Cons assms by (simp add: kv split: option.splits)
qed

lemma check_account_reads:
  assumes "get_balance w s a = get_balance w' s' a"
    and "get_transaction_count w s a = get_transaction_count w' s' a"
    and "get_code w s a = get_code w' s' a"
    and "\<forall>k. get_storage_at w s a k = get_storage_at w' s' a k"
  shows "check_account w s a acc = check_account w' s' a acc"
  using assms(1-3) check_storage_reads[OF assms(4), of "storage acc"]
  by (simp add: check_account_def split: option.splits)

text \<open>
  C3. Take two post-states with the same addresses in the same order, whose accounts are
  equal but under the addresses that have the checksummed form of the system address, and
  two nodes whose balance, nonce, code and storage agree on every address but the system
  address. Then \<open>check_post_state\<close> gives the same outcome on both.
\<close>

theorem check_post_state_skips_beacon:
  assumes "list_all2 (\<lambda>x y. fst x = fst y \<and>
              (to_checksum_address (fst x) \<noteq> to_checksum_address BEACON_ROOT_ADDRESS \<longrightarrow>
               snd x = snd y)) post post'"
    and "\<forall>a. Some a \<noteq> to_checksum_address BEACON_ROOT_ADDRESS \<longrightarrow>
           get_balance w s a = get_balance w' s' a \<and>
           get_transaction_count w s a = get_transaction_count w' s' a \<and>
           get_code w s a = get_code w' s' a \<and>
           (\<forall>k. get_storage_at w s a k = get_storage_at w' s' a k)"
  shows "check_post_state to_checksum_address BEACON_ROOT_ADDRESS w s post =
         check_post_state to_checksum_address BEACON_ROOT_ADDRESS w' s' post'"
  using assms(1)
proof (induction post post' rule: list_all2_induct)
  case Nil
  then show ?case by simp
next
  case (Cons x post y post')
  let ?cs = "to_checksum_address" and ?B = "BEACON_ROOT_ADDRESS"
  obtain address acc where x: "x = (address, acc)" by (cases x)
  obtain acc' where y: "y = (address, acc')" using Cons.hyps(1) x by (cases y) simp
  have same: "?cs address \<noteq> ?cs ?B \<Longrightarrow> acc' = acc" using Cons.hyps(1) x y by simp
  show ?case
  proof (cases "?cs address")
    case None
    then show ?thesis by (simp add: x y)
  next
    case (Some a)
    show ?thesis
    proof (cases "?cs ?B")
      case None
      then show ?thesis by (simp add: x y Some)
    next
      case beacon: (Some b)
      show ?thesis
      proof (cases "a = b")
        case True
        then show ?thesis using Cons.IH by (simp add: x y Some beacon)
      next
        case False
        then have acc: "acc' = acc" using same Some beacon by simp
        have "Some a \<noteq> ?cs ?B" using False beacon by simp
        then have "check_account w s a acc = check_account w' s' a acc"
          using assms(2) by (intro check_account_reads) blast+
        then show ?thesis using False Cons.IH
          by (simp add: x y Some beacon acc split: sum.splits)
      qed
    qed
  qed
qed

theorem check_post_state_skips_beacon_witness:
  "check_post_state Some ''0xbeac'' example_provider 2
     [(''0xa1'', example_account ''0x64''), (''0xbeac'', example_account ''0x07'')] =
   check_post_state Some ''0xbeac'' (example_provider\<lparr>get_balance := \<lambda>s a. 100\<rparr>) 2
     [(''0xa1'', example_account ''0x64''), (''0xbeac'', example_account ''0xffff'')]"
proof (rule check_post_state_skips_beacon)
  show "list_all2 (\<lambda>x y. fst x = fst y \<and> (Some (fst x) \<noteq> Some ''0xbeac'' \<longrightarrow> snd x = snd y))
          [(''0xa1'', example_account ''0x64''), (''0xbeac'', example_account ''0x07'')]
          [(''0xa1'', example_account ''0x64''), (''0xbeac'', example_account ''0xffff'')]"
    by simp
  show "\<forall>a. Some a \<noteq> Some ''0xbeac'' \<longrightarrow>
         get_balance example_provider 2 a =
           get_balance (example_provider\<lparr>get_balance := \<lambda>s a. 100\<rparr>) 2 a \<and>
         get_transaction_count example_provider 2 a =
           get_transaction_count (example_provider\<lparr>get_balance := \<lambda>s a. 100\<rparr>) 2 a \<and>
         get_code example_provider 2 a =
           get_code (example_provider\<lparr>get_balance := \<lambda>s a. 100\<rparr>) 2 a \<and>
         (\<forall>k. get_storage_at example_provider 2 a k =
           get_storage_at (example_provider\<lparr>get_balance := \<lambda>s a. 100\<rparr>) 2 a k)"
    by (simp add: example_provider_def)
qed

section \<open>Properties of the transaction replayer\<close>

lemma replay_trace_Nil: "replay_trace [] hs = []"
  by (simp add: replay_trace_def)

lemma replay_trace_Cons:
  "replay_trace (tx # txs) (h # hs) =
     SendRawTransaction (encoded tx) (Some h) # WaitForTransactionReceipt h True #
     replay_trace txs hs"
  by (simp add: replay_trace_def)

text \<open>
  The loop either goes through all transactions, or stops at the first call that raises:
  the submission of transaction \<open>k\<close> or the wait for its receipt.
\<close>

lemma send_loop_trace:
  "(\<exists>hs s'. send_loop w txs acc s = (replay_trace txs hs, Inr (acc @ hs, s')) \<and>
            length hs = length txs) \<or>
   (\<exists>k hs. snd (send_loop w txs acc s) = Inl EnvironmentError \<and> k < length txs \<and> length hs = k \<and>
      (fst (send_loop w txs acc s) =
         replay_trace (take k txs) hs @ [SendRawTransaction (encoded (txs ! k)) None] \<or>
       (\<exists>h. fst (send_loop w txs acc s) =
         replay_trace (take k txs) hs @
           [SendRawTransaction (encoded (txs ! k)) (Some h), WaitForTransactionReceipt h False])))"
  (is "?done txs acc s \<or> ?stopped txs acc s")
proof (induction txs arbitrary: acc s)
  case Nil
  show ?case by (simp add: replay_trace_Nil)
next
  case (Cons tx txs)
  show ?case
  proof (cases "send_transaction w tx s")
    case None
    then have "snd (send_loop w (tx # txs) acc s) = Inl EnvironmentError"
      "fst (send_loop w (tx # txs) acc s) =
         replay_trace (take 0 (tx # txs)) [] @ [SendRawTransaction (encoded ((tx # txs) ! 0)) None]"
      by (simp_all add: replay_trace_Nil)
    then have "?stopped (tx # txs) acc s"
      by (intro exI[of _ 0] exI[of _ "[]"]) simp
    then show ?thesis ..
  next
    case (Some r)
    obtain h s1 where r: "r = (h, s1)" by (cases r)
    show ?thesis
    proof (cases "wait_for_transaction_receipt w h s1")
      case None
      then have "snd (send_loop w (tx # txs) acc s) = Inl EnvironmentError"
        "fst (send_loop w (tx # txs) acc s) =
           replay_trace (take 0 (tx # txs)) [] @
             [SendRawTransaction (encoded ((tx # txs) ! 0)) (Some h),
              WaitForTransactionReceipt h False]"
        by (simp_all add: Some r replay_trace_Nil)
      then have "?stopped (tx # txs) acc s"
        by (intro exI[of _ 0] exI[of _ "[]"]) auto
      then show ?thesis ..
    next
      case wait: (Some s2)
      have step: "send_loop w (tx # txs) acc s =
          (SendRawTransaction (encoded tx) (Some h) # WaitForTransactionReceipt h True #
             fst (send_loop w txs (acc @ [h]) s2),
           snd (send_loop w txs (acc @ [h]) s2))"
        by (simp add: Some r wait)
      from Cons.IH[of "acc @ [h]" s2] show ?thesis
      proof
        assume "?done txs (acc @ [h]) s2"
        then obtain hs s' where
          run: "send_loop w txs (acc @ [h]) s2 = (replay_trace txs hs, Inr ((acc @ [h]) @ hs, s'))"
          and len: "length hs = length txs"
          by blast
        have "send_loop w (tx # txs) acc s =
                (replay_trace (tx # txs) (h # hs), Inr (acc @ h # hs, s'))"
          unfolding step run by (simp add: replay_trace_Cons)
        with len have "?done (tx # txs) acc s"
          by (intro exI[of _ "h # hs"] exI[of _ s']) simp
        then show ?thesis ..
      next
        assume "?stopped txs (acc @ [h]) s2"
        then obtain k hs where
          err: "snd (send_loop w txs (acc @ [h]) s2) = Inl EnvironmentError"
          and k: "k < length txs" and len: "length hs = k"
          and tr: "fst (send_loop w txs (acc @ [h]) s2) =
                     replay_trace (take k txs) hs @ [SendRawTransaction (encoded (txs ! k)) None] \<or>
                   (\<exists>h'. fst (send_loop w txs (acc @ [h]) s2) =
                     replay_trace (take k txs) hs @
                       [SendRawTransaction (encoded (txs ! k)) (Some h'),
                        WaitForTransactionReceipt h' False])"
          by blast
        have "fst (send_loop w (tx # txs) acc s) =
                 replay_trace (take (Suc k) (tx # txs)) (h # hs) @
                   [SendRawTransaction (encoded ((tx # txs) ! Suc k)) None] \<or>
              (\<exists>h'. fst (send_loop w (tx # txs) acc s) =
                 replay_trace (take (Suc k) (tx # txs)) (h # hs) @
                   [SendRawTransaction (encoded ((tx # txs) ! Suc k)) (Some h'),
                    WaitForTransactionReceipt h' False])"
          unfolding step using tr by (auto simp: replay_trace_Cons)
        moreover have "snd (send_loop w (tx # txs) acc s) = Inl EnvironmentError"
          unfolding step by (simp add: err)
        ultimately have "?stopped (tx # txs) acc s"
          using k len by (intro exI[of _ "Suc k"] exI[of _ "h # hs"]) simp
        then show ?thesis ..
      qed
    qed
  qed
qed

text \<open>
  The node's own run of the recorded calls: appending calls continues from the state that
  was reached, and the calls of the loop, applied to the node one after the other from the
  state the loop started in, return what is recorded and end in the state the loop returns,
  or raise at the last call when the loop fails.
\<close>

lemma node_run_append:
  "node_run w tr s = Reached s1 \<Longrightarrow> node_run w (tr @ tr') s = node_run w tr' s1"
proof (induction tr arbitrary: s)
  case Nil
  then show ?case by simp
next
  case (Cons c tr)
  show ?case
  proof (cases c)
    case (MakeRequest m ps ok)
    with Cons.prems obtain s2 where "make_request w m ps s = Some s2" "ok"
      "node_run w tr s2 = Reached s1"
      by (auto split: option.splits if_splits)
    then show ?thesis using Cons.IH[of s2] MakeRequest by simp
  next
    case (SendRawTransaction raw r)
    with Cons.prems obtain h s2 where "send_raw_transaction w raw s = Some (h, s2)" "r = Some h"
      "node_run w tr s2 = Reached s1"
      by (auto split: option.splits if_splits)
    then show ?thesis using Cons.IH[of s2] SendRawTransaction by simp
  next
    case (WaitForTransactionReceipt h ok)
    with Cons.prems obtain s2 where "wait_for_transaction_receipt w h s = Some s2" "ok"
      "node_run w tr s2 = Reached s1"
      by (auto split: option.splits if_splits)
    then show ?thesis using Cons.IH[of s2] WaitForTransactionReceipt by simp
  qed
qed

lemma send_loop_runs:
  "(\<forall>hs s'. snd (send_loop w txs acc s) = Inr (hs, s') \<longrightarrow>
      node_run w (fst (send_loop w txs acc s)) s = Reached s') \<and>
   (\<forall>e. snd (send_loop w txs acc s) = Inl e \<longrightarrow>
      node_run w (fst (send_loop w txs acc s)) s = Raised)"
proof (induction txs arbitrary: acc s)
  case Nil
  show ?case by simp
next
  case (Cons tx txs)
  show ?case
  proof (cases "send_raw_transaction w (encoded tx) s")
    case None
    then show ?thesis by (simp add: send_transaction_def)
  next
    case (Some r)
    obtain h s1 where r: "r = (h, s1)" by (cases r)
    show ?thesis
    proof (cases "wait_for_transaction_receipt w h s1")
      case None
      then show ?thesis by (simp add: send_transaction_def Some r)
    next
      case wait: (Some s2)
      have step: "send_loop w (tx # txs) acc s =
          (SendRawTransaction (encoded tx) (Some h) # WaitForTransactionReceipt h True #
             fst (send_loop w txs (acc @ [h]) s2),
           snd (send_loop w txs (acc @ [h]) s2))"
        by (simp add: send_transaction_def Some r wait)
      have run: "node_run w (SendRawTransaction (encoded tx) (Some h) #
                   WaitForTransactionReceipt h True # tr) s = node_run w tr s2" for tr
        by (simp add: Some r wait)
      show ?thesis
        unfolding step fst_conv snd_conv run by (rule Cons.IH)
    qed
  qed
qed

text \<open>
  C4. On a block with at least one transaction the replay is sequential. Either every
  call returned: then the calls are, transaction after transaction in the order of the
  block, the submission and the wait for the receipt of the hash it returned, and the
  recorded hashes are these hashes in this order. Or the replay stopped at transaction
  \<open>k\<close>, on its submission or on the wait for its receipt: then the calls before are the
  submissions and completed waits of the \<open>k\<close> transactions before it, and no call follows.
  In both cases the recorded calls are what happens at the node: applied to the node one
  after the other, each on the state the call before it returned, so each submission on
  the state returned by the wait for the receipt of the transaction before, they return
  the recorded hashes and end in the state the replay returns, or raise at the last call.
\<close>

theorem send_transactions_sequential:
  assumes "transactions blk \<noteq> []"
  shows
  "(\<exists>tx_hashes s'.
      send_transactions w blk s =
        (replay_trace (transactions blk) tx_hashes, Inr (tx_hashes, s')) \<and>
      length tx_hashes = length (transactions blk) \<and>
      node_run w (replay_trace (transactions blk) tx_hashes) s = Reached s') \<or>
   (\<exists>k hs. snd (send_transactions w blk s) = Inl EnvironmentError \<and>
      k < length (transactions blk) \<and> length hs = k \<and>
      node_run w (fst (send_transactions w blk s)) s = Raised \<and>
      (fst (send_transactions w blk s) =
         replay_trace (take k (transactions blk)) hs @
           [SendRawTransaction (encoded (transactions blk ! k)) None] \<or>
       (\<exists>h. fst (send_transactions w blk s) =
         replay_trace (take k (transactions blk)) hs @
           [SendRawTransaction (encoded (transactions blk ! k)) (Some h),
            WaitForTransactionReceipt h False])))"
proof -
  let ?txs = "transactions blk"
  have loop: "send_transactions w blk s = send_loop w ?txs [] s"
    using assms by (simp add: send_transactions_def)
  note runs = send_loop_runs[of w ?txs "[]" s]
  from send_loop_trace[of w ?txs "[]" s] show ?thesis
  proof
    assume "\<exists>hs s'. send_loop w ?txs [] s = (replay_trace ?txs hs, Inr ([] @ hs, s')) \<and>
              length hs = length ?txs"
    then obtain hs s' where
      run: "send_loop w ?txs [] s = (replay_trace ?txs hs, Inr (hs, s'))" and
      len: "length hs = length ?txs"
      by auto
    have "node_run w (replay_trace ?txs hs) s = Reached s'"
      using runs by (simp add: run)
    then show ?thesis using run len unfolding loop by blast
  next
    assume "\<exists>k hs. snd (send_loop w ?txs [] s) = Inl EnvironmentError \<and>
              k < length ?txs \<and> length hs = k \<and>
              (fst (send_loop w ?txs [] s) =
                 replay_trace (take k ?txs) hs @ [SendRawTransaction (encoded (?txs ! k)) None] \<or>
               (\<exists>h. fst (send_loop w ?txs [] s) =
                 replay_trace (take k ?txs) hs @
                   [SendRawTransaction (encoded (?txs ! k)) (Some h),
                    WaitForTransactionReceipt h False]))"
    then obtain k hs where
      err: "snd (send_loop w ?txs [] s) = Inl EnvironmentError" and
      k: "k < length ?txs" "length hs = k" and
      tr: "fst (send_loop w ?txs [] s) =
                 replay_trace (take k ?txs) hs @ [SendRawTransaction (encoded (?txs ! k)) None] \<or>
               (\<exists>h. fst (send_loop w ?txs [] s) =
                 replay_trace (take k ?txs) hs @
                   [SendRawTransaction (encoded (?txs ! k)) (Some h),
                    WaitForTransactionReceipt h False])"
      by blast
    have "node_run w (fst (send_loop w ?txs [] s)) s = Raised"
      using runs err by blast
    then show ?thesis using err k tr unfolding loop by blast
  qed
qed

theorem send_transactions_sequential_witness:
  "send_transactions example_ledger (example_block example_transactions) 0 =
     ([SendRawTransaction [0x01] (Some ''0x010''), WaitForTransactionReceipt ''0x010'' True,
       SendRawTransaction [0x02] (Some ''0x02b''), WaitForTransactionReceipt ''0x02b'' True],
      Inr ([''0x010'', ''0x02b''], 22)) \<and>
   node_run example_ledger
     [SendRawTransaction [0x01] (Some ''0x010''), WaitForTransactionReceipt ''0x010'' True,
      SendRawTransaction [0x02] (Some ''0x02b''), WaitForTransactionReceipt ''0x02b'' True] 0 =
     Reached 22 \<and>
   send_transactions (example_ledger\<lparr>wait_for_transaction_receipt := \<lambda>h s. None\<rparr>)
       (example_block example_transactions) 0 =
     ([SendRawTransaction [0x01] (Some ''0x010''), WaitForTransactionReceipt ''0x010'' False],
      Inl EnvironmentError) \<and>
   node_run (example_ledger\<lparr>wait_for_transaction_receipt := \<lambda>h s. None\<rparr>)
     [SendRawTransaction [0x01] (Some ''0x010''), WaitForTransactionReceipt ''0x010'' False] 0 =
     Raised"
proof -
  let ?stuck = "example_ledger\<lparr>wait_for_transaction_receipt := \<lambda>h s. None\<rparr>"
  have ne: "transactions (example_block example_transactions) \<noteq> []"
    by (simp add: example_block_def example_transactions_def)
  note t1 = send_transactions_sequential[OF ne, of example_ledger 0]
  note t2 = send_transactions_sequential[OF ne, of ?stuck 0]
  have r1: "send_transactions example_ledger (example_block example_transactions) 0 =
     ([SendRawTransaction [0x01] (Some ''0x010''), WaitForTransactionReceipt ''0x010'' True,
       SendRawTransaction [0x02] (Some ''0x02b''), WaitForTransactionReceipt ''0x02b'' True],
      Inr ([''0x010'', ''0x02b''], 22))"
    by code_simp
  have r2: "send_transactions ?stuck (example_block example_transactions) 0 =
     ([SendRawTransaction [0x01] (Some ''0x010''), WaitForTransactionReceipt ''0x010'' False],
      Inl EnvironmentError)"
    by code_simp
  have reached: "node_run w tr s = Reached s'"
    if "(\<exists>hs t. run = (replay_trace txs hs, Inr (hs, t)) \<and> length hs = length txs \<and>
            node_run w (replay_trace txs hs) s = Reached t) \<or>
        (\<exists>k hs. snd run = Inl EnvironmentError \<and> k < length txs \<and> length hs = k \<and>
            node_run w (fst run) s = Raised \<and> Q k hs)"
      and "run = (tr, Inr (hs', s'))"
    for w :: "nat provider" and tr s s' txs hs' Q
      and run :: "call list \<times> (error + string list \<times> nat)"
    using that by auto
  have raised: "node_run w tr s = Raised"
    if "(\<exists>hs t. run = (replay_trace txs hs, Inr (hs, t)) \<and> length hs = length txs \<and>
            node_run w (replay_trace txs hs) s = Reached t) \<or>
        (\<exists>k hs. snd run = Inl EnvironmentError \<and> k < length txs \<and> length hs = k \<and>
            node_run w (fst run) s = Raised \<and> Q k hs)"
      and "run = (tr, Inl e)"
    for w :: "nat provider" and tr s txs e Q
      and run :: "call list \<times> (error + string list \<times> nat)"
    using that by auto
  have n1: "node_run example_ledger
     [SendRawTransaction [0x01] (Some ''0x010''), WaitForTransactionReceipt ''0x010'' True,
      SendRawTransaction [0x02] (Some ''0x02b''), WaitForTransactionReceipt ''0x02b'' True] 0 =
     Reached 22"
    using t1 r1 by (rule reached)
  have n2: "node_run ?stuck
     [SendRawTransaction [0x01] (Some ''0x010''), WaitForTransactionReceipt ''0x010'' False] 0 =
     Raised"
    using t2 r2 by (rule raised)
  show ?thesis using r1 n1 r2 n2 by (intro conjI)
qed

section \<open>Properties of the environment seeder\<close>

subsection \<open>Hexadecimal digits\<close>

lemma hex_digit_hex_char: "d < 16 \<Longrightarrow> hex_digit (hex_char d) = Some d"
  by (auto simp: hex_digit_def hex_char_def Let_def)

lemma hex_digit_underscore: "hex_digit (CHR ''_'') = None"
  by (simp add: hex_digit_def)

lemma is_hex_digit_not_special:
  assumes "is_hex_digit c"
  shows "c \<noteq> CHR ''_''" "c \<noteq> CHR ''+''" "c \<noteq> CHR ''-''" "\<not> is_space c"
  using assms by (auto simp: is_hex_digit_def hex_digit_def is_space_def)

lemma hex_value_simps:
  "hex_value z [] = z"
  "hex_value z (c # cs) = hex_value (16 * z + the (hex_digit c)) cs"
  "hex_value z (cs @ [c]) = 16 * hex_value z cs + the (hex_digit c)"
  by (simp_all add: hex_value_def)

lemma hex_value_zeros: "hex_value 0 (replicate m (CHR ''0'') @ ds) = hex_value 0 ds"
proof (induction m)
  case 0
  then show ?case by simp
next
  case (Suc m)
  have "hex_digit (CHR ''0'') = Some 0" by (simp add: hex_digit_def)
  then show ?case using Suc by (simp add: hex_value_simps)
qed

lemma long_from_binary_base_digits:
  assumes "\<forall>c \<in> set ds. is_hex_digit c" "ds \<noteq> [] \<or> prev \<noteq> CHR ''_''"
  shows "long_from_binary_base prev z ds = Some (hex_value z ds, [])"
  using assms
proof (induction ds arbitrary: prev z)
  case Nil
  then show ?case by (simp add: hex_value_simps)
next
  case (Cons c cs)
  from Cons.prems(1) obtain d where d: "hex_digit c = Some d"
    by (auto simp: is_hex_digit_def)
  have c: "c \<noteq> CHR ''_''" using d hex_digit_underscore by auto
  have "long_from_binary_base c (16 * z + d) cs = Some (hex_value (16 * z + d) cs, [])"
    using Cons.prems(1) c by (intro Cons.IH) simp_all
  then show ?case using c d by (simp add: hex_value_simps)
qed

text \<open>A prefixed string of hexadecimal digits is read as the number the digits denote.\<close>

lemma py_int16_0x_digits:
  assumes "ds \<noteq> []" "\<forall>c \<in> set ds. is_hex_digit c"
  shows "py_int16 (''0x'' @ ds) = Some (int (hex_value 0 ds))"
proof -
  obtain c cs where ds: "ds = c # cs" using assms(1) by (cases ds) auto
  have c: "is_hex_digit c" using assms(2) ds by simp
  have hd: "hd ds \<noteq> CHR ''_''"
    using is_hex_digit_not_special(1)[OF c] by (simp add: ds)
  have sp: "\<not> is_space (CHR ''0'')"
    by (simp add: is_space_def)
  have sg: "skip_sign (CHR ''0'' # CHR ''x'' # ds) = (1, CHR ''0'' # CHR ''x'' # ds)"
    by simp
  have pf: "skip_prefix (CHR ''0'' # CHR ''x'' # ds) = ds"
    using is_hex_digit_not_special(1)[OF c] by (simp add: ds)
  have run: "long_from_binary_base (CHR 0x00) 0 ds = Some (hex_value 0 ds, [])"
    using assms by (intro long_from_binary_base_digits) simp_all
  show ?thesis
    using assms(1) hd
    by (simp add: py_int16_def sp sg pf run del: skip_prefix.simps skip_sign.simps)
qed

subsection \<open>Fixed-width encoding\<close>

lemma length_fixed_hex: "length (fixed_hex w n) = w"
  by (induction w arbitrary: n) simp_all

lemma fixed_hex_digits: "\<forall>c \<in> set (fixed_hex w n). is_hex_digit c"
proof (induction w arbitrary: n)
  case 0
  then show ?case by simp
next
  case (Suc w)
  have "is_hex_digit (hex_char (n mod 16))"
    using hex_digit_hex_char[of "n mod 16"] by (simp add: is_hex_digit_def)
  then show ?case using Suc by simp
qed

lemma hex_value_fixed_hex: "hex_value 0 (fixed_hex w n) = n mod 16 ^ w"
proof (induction w arbitrary: n)
  case 0
  then show ?case by (simp add: hex_value_simps)
next
  case (Suc w)
  have "hex_value 0 (fixed_hex (Suc w) n) = 16 * ((n div 16) mod 16 ^ w) + n mod 16"
    using Suc[of "n div 16"] hex_digit_hex_char[of "n mod 16"] by (simp add: hex_value_simps)
  also have "\<dots> = n mod 16 ^ Suc w"
    by (simp add: mod_mult2_eq)
  finally show ?case .
qed

lemma fixed_hex_zero: "fixed_hex w 0 = replicate w (CHR ''0'')"
proof (induction w)
  case 0
  then show ?case by simp
next
  case (Suc w)
  have "hex_char 0 = CHR ''0''" by code_simp
  then show ?case using Suc by (simp add: replicate_append_same)
qed

lemma zero_pad_to_hex:
  "n < 16 ^ Suc w \<Longrightarrow> zero_pad (Suc w) (to_hex n) = fixed_hex (Suc w) n"
proof (induction w arbitrary: n)
  case 0
  then have "to_hex n = [hex_char n]" by (subst to_hex.simps) simp
  then show ?case using 0 by (simp add: zero_pad_def)
next
  case (Suc w)
  show ?case
  proof (cases "n < 16")
    case True
    then have "to_hex n = [hex_char n]" by (subst to_hex.simps) simp
    then show ?thesis using True
      by (simp add: zero_pad_def fixed_hex_zero replicate_append_same)
  next
    case False
    have "n div 16 < 16 ^ Suc w" using Suc.prems by (simp add: less_mult_imp_div_less)
    from Suc.IH[OF this] have IH: "zero_pad (Suc w) (to_hex (n div 16)) = fixed_hex (Suc w) (n div 16)" .
    have "to_hex n = to_hex (n div 16) @ [hex_char (n mod 16)]"
      using False by (subst to_hex.simps) simp
    then have "zero_pad (Suc (Suc w)) (to_hex n) =
                 zero_pad (Suc w) (to_hex (n div 16)) @ [hex_char (n mod 16)]"
      by (simp add: zero_pad_def)
    then show ?thesis using IH by simp
  qed
qed

lemma format_064x_fixed_hex:
  assumes "0 \<le> n" "n < 2 ^ 256"
  shows "format_064x n = fixed_hex 64 (nat n)"
proof -
  have "nat n < 2 ^ 256" using assms by (simp add: nat_less_iff)
  also have "(2::nat) ^ 256 = 16 ^ Suc 63" by simp
  finally have "zero_pad (Suc 63) (to_hex (nat n)) = fixed_hex (Suc 63) (nat n)"
    by (rule zero_pad_to_hex)
  then show ?thesis using assms(1) by (simp add: format_064x_def)
qed

subsection \<open>The calls of the seeder\<close>

lemma is_uint256_format:
  assumes "is_uint256 k"
  shows "\<exists>n. py_int16 k = Some n \<and> format_064x n = fixed_hex 64 (uint256_of k)"
proof -
  from assms obtain n where n: "py_int16 k = Some n" "0 \<le> n" "n < 2 ^ 256"
    by (auto simp: is_uint256_def split: option.splits)
  then have "format_064x n = fixed_hex 64 (uint256_of k)"
    by (simp add: format_064x_fixed_hex uint256_of_def)
  with n show ?thesis by blast
qed

lemma request_Inr:
  "snd (request w m ps s) = Inr s' \<Longrightarrow> request w m ps s = ([MakeRequest m ps True], Inr s')"
  by (auto simp: request_def split: option.splits)

lemma request_accepting:
  "\<forall>m ps t. make_request w m ps t \<noteq> None \<Longrightarrow> \<exists>s'. snd (request w m ps s) = Inr s'"
  by (auto simp: request_def split: option.splits)

lemma and_then_Inr:
  assumes "snd (and_then m f) = Inr y"
  obtains x where "snd m = Inr x" "snd (f x) = Inr y" "fst (and_then m f) = fst m @ fst (f x)"
  using assms by (cases m) (auto simp: and_then_def split: sum.splits)

lemma and_then_accepting:
  assumes "snd m = Inr x" "snd (f x) = Inr y"
  shows "snd (and_then m f) = Inr y"
  using assms by (cases m) (auto simp: and_then_def)

lemma set_storage_trace:
  assumes "\<forall>(k, v) \<in> set kvs. is_uint256 k \<and> is_uint256 v"
    and "snd (set_storage w a kvs s) = Inr s'"
  shows "fst (set_storage w a kvs s) =
           map (\<lambda>(k, v). MakeRequest ''anvil_setStorageAt''
                 [Str a, Str (''0x'' @ fixed_hex 64 (uint256_of k)),
                  Str (''0x'' @ fixed_hex 64 (uint256_of v))] True) kvs"
  using assms
proof (induction kvs arbitrary: s)
  case Nil
  then show ?case by simp
next
  case (Cons kv kvs)
  obtain k v where kv: "kv = (k, v)" by (cases kv)
  from Cons.prems(1) kv have "is_uint256 k" "is_uint256 v" by simp_all
  then obtain kn vn where
    kn: "py_int16 k = Some kn" "format_064x kn = fixed_hex 64 (uint256_of k)" and
    vn: "py_int16 v = Some vn" "format_064x vn = fixed_hex 64 (uint256_of v)"
    using is_uint256_format by blast
  let ?ps = "[Str a, Str (''0x'' @ fixed_hex 64 (uint256_of k)),
              Str (''0x'' @ fixed_hex 64 (uint256_of v))]"
  have unfold: "set_storage w a (kv # kvs) s =
      (case request w ''anvil_setStorageAt'' ?ps s of
         (tr, Inl e) \<Rightarrow> (tr, Inl e)
       | (tr, Inr s1) \<Rightarrow> (tr @ fst (set_storage w a kvs s1), snd (set_storage w a kvs s1)))"
    by (simp add: kv kn vn)
  from Cons.prems(2) obtain s1 where
    s1: "snd (request w ''anvil_setStorageAt'' ?ps s) = Inr s1" and
    rest: "snd (set_storage w a kvs s1) = Inr s'"
    unfolding unfold
    by (cases "request w ''anvil_setStorageAt'' ?ps s") (auto split: sum.splits)
  have "fst (set_storage w a kvs s1) =
           map (\<lambda>(k, v). MakeRequest ''anvil_setStorageAt''
                 [Str a, Str (''0x'' @ fixed_hex 64 (uint256_of k)),
                  Str (''0x'' @ fixed_hex 64 (uint256_of v))] True) kvs"
    using Cons.prems(1) rest by (intro Cons.IH) simp_all
  then show ?case
    unfolding unfold request_Inr[OF s1] by (simp add: kv)
qed

lemma set_storage_accepting:
  assumes "\<forall>(k, v) \<in> set kvs. is_uint256 k \<and> is_uint256 v"
    and "\<forall>m ps t. make_request w m ps t \<noteq> None"
  shows "\<exists>s'. snd (set_storage w a kvs s) = Inr s'"
  using assms(1)
proof (induction kvs arbitrary: s)
  case Nil
  then show ?case by simp
next
  case (Cons kv kvs)
  obtain k v where kv: "kv = (k, v)" by (cases kv)
  from Cons.prems kv have "is_uint256 k" "is_uint256 v" by simp_all
  then obtain kn vn where kn: "py_int16 k = Some kn" and vn: "py_int16 v = Some vn"
    using is_uint256_format by blast
  let ?ps = "[Str a, Str (''0x'' @ format_064x kn), Str (''0x'' @ format_064x vn)]"
  from request_accepting[OF assms(2), of "''anvil_setStorageAt''" ?ps s]
  obtain s1 where s1: "snd (request w ''anvil_setStorageAt'' ?ps s) = Inr s1" by blast
  have "\<exists>s'. snd (set_storage w a kvs s1) = Inr s'"
    using Cons.prems by (intro Cons.IH) simp
  then show ?case
    using request_Inr[OF s1] by (simp add: kv kn vn)
qed

lemma set_account_trace:
  assumes "\<forall>(k, v) \<in> set (storage acc). is_uint256 k \<and> is_uint256 v"
    and "snd (set_account w a acc s) = Inr s'"
  shows "fst (set_account w a acc s) =
     [MakeRequest ''anvil_setCode'' [Str a, Str (code acc)] True,
      MakeRequest ''anvil_setBalance'' [Str a, Str (balance acc)] True,
      MakeRequest ''anvil_setNonce'' [Str a, Str (nonce acc)] True] @
     map (\<lambda>(k, v). MakeRequest ''anvil_setStorageAt''
           [Str a, Str (''0x'' @ fixed_hex 64 (uint256_of k)),
            Str (''0x'' @ fixed_hex 64 (uint256_of v))] True) (storage acc)"
proof -
  from assms(2) obtain s1 where
    c: "snd (request w ''anvil_setCode'' [Str a, Str (code acc)] s) = Inr s1" and
    r1: "snd (and_then (request w ''anvil_setBalance'' [Str a, Str (balance acc)] s1) (\<lambda>s.
           and_then (request w ''anvil_setNonce'' [Str a, Str (nonce acc)] s) (\<lambda>s.
           set_storage w a (storage acc) s))) = Inr s'" and
    t1: "fst (set_account w a acc s) =
           fst (request w ''anvil_setCode'' [Str a, Str (code acc)] s) @
           fst (and_then (request w ''anvil_setBalance'' [Str a, Str (balance acc)] s1) (\<lambda>s.
           and_then (request w ''anvil_setNonce'' [Str a, Str (nonce acc)] s) (\<lambda>s.
           set_storage w a (storage acc) s)))"
    unfolding set_account_def by (rule and_then_Inr)
  from r1 obtain s2 where
    b: "snd (request w ''anvil_setBalance'' [Str a, Str (balance acc)] s1) = Inr s2" and
    r2: "snd (and_then (request w ''anvil_setNonce'' [Str a, Str (nonce acc)] s2) (\<lambda>s.
           set_storage w a (storage acc) s)) = Inr s'" and
    t2: "fst (and_then (request w ''anvil_setBalance'' [Str a, Str (balance acc)] s1) (\<lambda>s.
           and_then (request w ''anvil_setNonce'' [Str a, Str (nonce acc)] s) (\<lambda>s.
           set_storage w a (storage acc) s))) =
         fst (request w ''anvil_setBalance'' [Str a, Str (balance acc)] s1) @
         fst (and_then (request w ''anvil_setNonce'' [Str a, Str (nonce acc)] s2) (\<lambda>s.
           set_storage w a (storage acc) s))"
    by (rule and_then_Inr)
  from r2 obtain s3 where
    n: "snd (request w ''anvil_setNonce'' [Str a, Str (nonce acc)] s2) = Inr s3" and
    r3: "snd (set_storage w a (storage acc) s3) = Inr s'" and
    t3: "fst (and_then (request w ''anvil_setNonce'' [Str a, Str (nonce acc)] s2) (\<lambda>s.
           set_storage w a (storage acc) s)) =
         fst (request w ''anvil_setNonce'' [Str a, Str (nonce acc)] s2) @
         fst (set_storage w a (storage acc) s3)"
    by (rule and_then_Inr)
  have "fst (request w ''anvil_setCode'' [Str a, Str (code acc)] s) =
          [MakeRequest ''anvil_setCode'' [Str a, Str (code acc)] True]"
       "fst (request w ''anvil_setBalance'' [Str a, Str (balance acc)] s1) =
          [MakeRequest ''anvil_setBalance'' [Str a, Str (balance acc)] True]"
       "fst (request w ''anvil_setNonce'' [Str a, Str (nonce acc)] s2) =
          [MakeRequest ''anvil_setNonce'' [Str a, Str (nonce acc)] True]"
    by (simp_all only: request_Inr[OF c] request_Inr[OF b] request_Inr[OF n] fst_conv)
  then show ?thesis
    by (simp only: t1 t2 t3 set_storage_trace[OF assms(1) r3] append_Cons append_Nil)
qed

lemma set_account_accepting:
  assumes "\<forall>(k, v) \<in> set (storage acc). is_uint256 k \<and> is_uint256 v"
    and "\<forall>m ps t. make_request w m ps t \<noteq> None"
  shows "\<exists>s'. snd (set_account w a acc s) = Inr s'"
proof -
  obtain s1 where c: "snd (request w ''anvil_setCode'' [Str a, Str (code acc)] s) = Inr s1"
    using request_accepting[OF assms(2)] by blast
  obtain s2 where b: "snd (request w ''anvil_setBalance'' [Str a, Str (balance acc)] s1) = Inr s2"
    using request_accepting[OF assms(2)] by blast
  obtain s3 where n: "snd (request w ''anvil_setNonce'' [Str a, Str (nonce acc)] s2) = Inr s3"
    using request_accepting[OF assms(2)] by blast
  obtain s' where st: "snd (set_storage w a (storage acc) s3) = Inr s'"
    using set_storage_accepting[OF assms] by blast
  have "snd (set_account w a acc s) = Inr s'"
    unfolding set_account_def
    by (intro and_then_accepting[OF c] and_then_accepting[OF b] and_then_accepting[OF n] st)
  then show ?thesis ..
qed

lemma set_pre_state_trace:
  assumes "\<forall>(address, acc) \<in> set accounts. \<forall>(k, v) \<in> set (storage acc). is_uint256 k \<and> is_uint256 v"
    and "snd (set_pre_state w accounts s) = Inr s'"
  shows "fst (set_pre_state w accounts s) = seeding_requests accounts"
  using assms
proof (induction accounts arbitrary: s)
  case Nil
  then show ?case by (simp add: seeding_requests_def)
next
  case (Cons entry accounts)
  obtain a acc where entry: "entry = (a, acc)" by (cases entry)
  have wf: "\<forall>(k, v) \<in> set (storage acc). is_uint256 k \<and> is_uint256 v"
    using Cons.prems(1) entry by simp
  from Cons.prems(2) obtain s1 where
    s1: "snd (set_account w a acc s) = Inr s1" and
    rest: "snd (set_pre_state w accounts s1) = Inr s'"
    by (cases "set_account w a acc s") (auto simp: entry split: sum.splits)
  have step: "fst (set_pre_state w (entry # accounts) s) =
                fst (set_account w a acc s) @ fst (set_pre_state w accounts s1)"
    using s1 by (cases "set_account w a acc s") (simp add: entry)
  have "fst (set_pre_state w accounts s1) = seeding_requests accounts"
    using Cons.prems(1) rest by (intro Cons.IH) simp_all
  then show ?case
    unfolding step set_account_trace[OF wf s1]
    by (simp add: seeding_requests_def entry)
qed

lemma set_pre_state_accepting:
  assumes "\<forall>(address, acc) \<in> set accounts. \<forall>(k, v) \<in> set (storage acc). is_uint256 k \<and> is_uint256 v"
    and "\<forall>m ps t. make_request w m ps t \<noteq> None"
  shows "\<exists>s'. snd (set_pre_state w accounts s) = Inr s'"
  using assms(1)
proof (induction accounts arbitrary: s)
  case Nil
  then show ?case by simp
next
  case (Cons entry accounts)
  obtain a acc where entry: "entry = (a, acc)" by (cases entry)
  have wf: "\<forall>(k, v) \<in> set (storage acc). is_uint256 k \<and> is_uint256 v"
    using Cons.prems entry by simp
  obtain s1 where s1: "snd (set_account w a acc s) = Inr s1"
    using set_account_accepting[OF wf assms(2)] by blast
  have "\<exists>s'. snd (set_pre_state w accounts s1) = Inr s'"
    using Cons.prems by (intro Cons.IH) simp
  then show ?case
    using s1 by (cases "set_account w a acc s") (simp add: entry)
qed

text \<open>
  The node's own run of the calls of the seeder: applied to the node one after the other
  from the state the seeding started in, they return what is recorded and end in the state
  the seeding returns, or raise at the last call when the seeding fails.
\<close>

lemma set_storage_runs:
  assumes "\<forall>(k, v) \<in> set kvs. is_uint256 k \<and> is_uint256 v"
  shows "(\<forall>s'. snd (set_storage w a kvs s) = Inr s' \<longrightarrow>
            node_run w (fst (set_storage w a kvs s)) s = Reached s') \<and>
         (\<forall>e. snd (set_storage w a kvs s) = Inl e \<longrightarrow>
            e = EnvironmentError \<and> node_run w (fst (set_storage w a kvs s)) s = Raised)"
  using assms
proof (induction kvs arbitrary: s)
  case Nil
  then show ?case by simp
next
  case (Cons kv kvs)
  obtain k v where kv: "kv = (k, v)" by (cases kv)
  from Cons.prems kv have "is_uint256 k" "is_uint256 v" by simp_all
  then obtain kn vn where kn: "py_int16 k = Some kn" and vn: "py_int16 v = Some vn"
    using is_uint256_format by blast
  let ?ps = "[Str a, Str (''0x'' @ format_064x kn), Str (''0x'' @ format_064x vn)]"
  have IH: "(\<forall>s'. snd (set_storage w a kvs t) = Inr s' \<longrightarrow>
            node_run w (fst (set_storage w a kvs t)) t = Reached s') \<and>
         (\<forall>e. snd (set_storage w a kvs t) = Inl e \<longrightarrow>
            e = EnvironmentError \<and> node_run w (fst (set_storage w a kvs t)) t = Raised)" for t
    using Cons.prems by (intro Cons.IH) simp
  show ?case
  proof (cases "make_request w ''anvil_setStorageAt'' ?ps s")
    case None
    then show ?thesis by (simp add: kv kn vn request_def)
  next
    case (Some s1)
    then show ?thesis using IH[of s1] by (simp add: kv kn vn request_def)
  qed
qed

lemma set_account_runs:
  assumes "\<forall>(k, v) \<in> set (storage acc). is_uint256 k \<and> is_uint256 v"
  shows "(\<forall>s'. snd (set_account w a acc s) = Inr s' \<longrightarrow>
            node_run w (fst (set_account w a acc s)) s = Reached s') \<and>
         (\<forall>e. snd (set_account w a acc s) = Inl e \<longrightarrow>
            e = EnvironmentError \<and> node_run w (fst (set_account w a acc s)) s = Raised)"
proof (cases "make_request w ''anvil_setCode'' [Str a, Str (code acc)] s")
  case None
  then show ?thesis by (simp add: set_account_def and_then_def request_def)
next
  case c: (Some s1)
  show ?thesis
  proof (cases "make_request w ''anvil_setBalance'' [Str a, Str (balance acc)] s1")
    case None
    then show ?thesis by (simp add: set_account_def and_then_def request_def c)
  next
    case b: (Some s2)
    show ?thesis
    proof (cases "make_request w ''anvil_setNonce'' [Str a, Str (nonce acc)] s2")
      case None
      then show ?thesis by (simp add: set_account_def and_then_def request_def c b)
    next
      case n: (Some s3)
      have "set_account w a acc s =
          (MakeRequest ''anvil_setCode'' [Str a, Str (code acc)] True #
           MakeRequest ''anvil_setBalance'' [Str a, Str (balance acc)] True #
           MakeRequest ''anvil_setNonce'' [Str a, Str (nonce acc)] True #
           fst (set_storage w a (storage acc) s3),
           snd (set_storage w a (storage acc) s3))"
        by (simp add: set_account_def and_then_def request_def c b n)
      then show ?thesis
        using set_storage_runs[OF assms, of w a s3] by (simp add: c b n)
    qed
  qed
qed

lemma set_pre_state_runs:
  assumes "\<forall>(address, acc) \<in> set accounts.
             \<forall>(k, v) \<in> set (storage acc). is_uint256 k \<and> is_uint256 v"
  shows "(\<forall>s'. snd (set_pre_state w accounts s) = Inr s' \<longrightarrow>
            node_run w (fst (set_pre_state w accounts s)) s = Reached s') \<and>
         (\<forall>e. snd (set_pre_state w accounts s) = Inl e \<longrightarrow>
            e = EnvironmentError \<and> node_run w (fst (set_pre_state w accounts s)) s = Raised)"
  using assms
proof (induction accounts arbitrary: s)
  case Nil
  then show ?case by simp
next
  case (Cons entry accounts)
  obtain a acc where entry: "entry = (a, acc)" by (cases entry)
  have wf: "\<forall>(k, v) \<in> set (storage acc). is_uint256 k \<and> is_uint256 v"
    using Cons.prems entry by simp
  note acc = set_account_runs[OF wf, of w a s]
  have IH: "(\<forall>s'. snd (set_pre_state w accounts t) = Inr s' \<longrightarrow>
            node_run w (fst (set_pre_state w accounts t)) t = Reached s') \<and>
         (\<forall>e. snd (set_pre_state w accounts t) = Inl e \<longrightarrow>
            e = EnvironmentError \<and> node_run w (fst (set_pre_state w accounts t)) t = Raised)" for t
    using Cons.prems by (intro Cons.IH) simp
  obtain tr res where r: "set_account w a acc s = (tr, res)" by (cases "set_account w a acc s")
  show ?case
  proof (cases res)
    case (Inl e)
    then show ?thesis using acc r by (simp add: entry)
  next
    case (Inr s1)
    then have "node_run w tr s = Reached s1" using acc r by simp
    then have "node_run w (tr @ fst (set_pre_state w accounts s1)) s =
                 node_run w (fst (set_pre_state w accounts s1)) s1"
      by (rule node_run_append)
    then show ?thesis using IH[of s1] r Inr by (simp add: entry)
  qed
qed

lemma uint256_of_roundtrip:
  assumes "is_uint256 k"
  shows "py_int16 k = Some (int (hex_value 0 (fixed_hex 64 (uint256_of k))))"
proof -
  from assms obtain n where n: "py_int16 k = Some n" "0 \<le> n" "n < 2 ^ 256"
    by (auto simp: is_uint256_def split: option.splits)
  then have "nat n < 2 ^ 256" by (simp add: nat_less_iff)
  then have "nat n mod 16 ^ 64 = nat n" by simp
  then show ?thesis using n by (simp add: hex_value_fixed_hex uint256_of_def)
qed

text \<open>
  C6. When every storage key and value of the pre-state denotes an unsigned 256-bit
  integer, a seeding that completes has made exactly the calls of \<open>seeding_requests\<close>:
  for every account and every storage entry one \<^verbatim>\<open>anvil_setStorageAt\<close> whose key and
  value are \<^verbatim>\<open>0x\<close> followed by the 64 digits of the big-endian encoding of the integer.
  These calls are what the node receives: applied to the node one after the other by
  \<^verbatim>\<open>make_request\<close>, from the state the seeding started in, each is accepted and they
  end in the state the seeding returns. A seeding that fails does so because the node
  raised at the last recorded call, and the seeding completes when the node accepts every
  request. The encoding has 64 hexadecimal digits and is read back as the integer; zeros
  between the prefix and the digits of a string do not change the integer it denotes; two
  strings get the same encoding exactly when they denote the same integer.
\<close>

theorem set_pre_state_fixed_width:
  assumes "\<forall>(address, acc) \<in> set accounts.
             \<forall>(k, v) \<in> set (storage acc). is_uint256 k \<and> is_uint256 v"
  shows
  "(snd (set_pre_state w accounts s) = Inr s' \<longrightarrow>
      fst (set_pre_state w accounts s) = seeding_requests accounts \<and>
      node_run w (seeding_requests accounts) s = Reached s') \<and>
   (snd (set_pre_state w accounts s) = Inl e \<longrightarrow>
      e = EnvironmentError \<and> node_run w (fst (set_pre_state w accounts s)) s = Raised) \<and>
   ((\<forall>m ps t. make_request w m ps t \<noteq> None) \<longrightarrow>
      (\<exists>s''. snd (set_pre_state w accounts s) = Inr s'')) \<and>
   length (fixed_hex 64 n) = 64 \<and>
   (\<forall>c \<in> set (fixed_hex 64 n). is_hex_digit c) \<and>
   (n < 2 ^ 256 \<longrightarrow> py_int16 (''0x'' @ fixed_hex 64 n) = Some (int n)) \<and>
   (ds \<noteq> [] \<and> (\<forall>c \<in> set ds. is_hex_digit c) \<longrightarrow>
      py_int16 (''0x'' @ replicate m (CHR ''0'') @ ds) = py_int16 (''0x'' @ ds)) \<and>
   (is_uint256 k \<and> is_uint256 k' \<longrightarrow>
      (fixed_hex 64 (uint256_of k) = fixed_hex 64 (uint256_of k') \<longleftrightarrow>
       py_int16 k = py_int16 k'))"
proof -
  note runs = set_pre_state_runs[OF assms, of w s]
  have c1: "snd (set_pre_state w accounts s) = Inr s' \<longrightarrow>
      fst (set_pre_state w accounts s) = seeding_requests accounts \<and>
      node_run w (seeding_requests accounts) s = Reached s'"
  proof
    assume ok: "snd (set_pre_state w accounts s) = Inr s'"
    have tr: "fst (set_pre_state w accounts s) = seeding_requests accounts"
      using assms ok by (rule set_pre_state_trace)
    have "node_run w (fst (set_pre_state w accounts s)) s = Reached s'"
      using runs ok by blast
    then show "fst (set_pre_state w accounts s) = seeding_requests accounts \<and>
               node_run w (seeding_requests accounts) s = Reached s'"
      using tr by simp
  qed
  have c1': "snd (set_pre_state w accounts s) = Inl e \<longrightarrow>
      e = EnvironmentError \<and> node_run w (fst (set_pre_state w accounts s)) s = Raised"
    using runs by blast
  have c2: "(\<forall>m ps t. make_request w m ps t \<noteq> None) \<longrightarrow>
      (\<exists>s''. snd (set_pre_state w accounts s) = Inr s'')"
    by (rule impI) (rule set_pre_state_accepting[OF assms])
  have c3: "length (fixed_hex 64 n) = 64" by (rule length_fixed_hex)
  have c4: "\<forall>c \<in> set (fixed_hex 64 n). is_hex_digit c" by (rule fixed_hex_digits)
  have c5: "n < 2 ^ 256 \<longrightarrow> py_int16 (''0x'' @ fixed_hex 64 n) = Some (int n)"
  proof
    assume "n < 2 ^ 256"
    then have small: "n mod 16 ^ 64 = n" by simp
    have "length (fixed_hex 64 n) \<noteq> length ([] :: string)"
      by (simp only: c3 list.size)
    then have ne: "fixed_hex 64 n \<noteq> []" by (rule contrapos_nn) (erule arg_cong)
    have "py_int16 (''0x'' @ fixed_hex 64 n) = Some (int (hex_value 0 (fixed_hex 64 n)))"
      using ne c4 by (rule py_int16_0x_digits)
    also have "hex_value 0 (fixed_hex 64 n) = n mod 16 ^ 64"
      by (rule hex_value_fixed_hex)
    finally show "py_int16 (''0x'' @ fixed_hex 64 n) = Some (int n)"
      by (simp only: small)
  qed
  have c6: "ds \<noteq> [] \<and> (\<forall>c \<in> set ds. is_hex_digit c) \<longrightarrow>
      py_int16 (''0x'' @ replicate m (CHR ''0'') @ ds) = py_int16 (''0x'' @ ds)"
  proof (intro impI, elim conjE)
    assume ds: "ds \<noteq> []" "\<forall>c \<in> set ds. is_hex_digit c"
    have zero: "is_hex_digit (CHR ''0'')" by (simp add: is_hex_digit_def hex_digit_def)
    have "py_int16 (''0x'' @ (replicate m (CHR ''0'') @ ds)) =
            Some (int (hex_value 0 (replicate m (CHR ''0'') @ ds)))"
      using ds zero by (intro py_int16_0x_digits) auto
    moreover have "py_int16 (''0x'' @ ds) = Some (int (hex_value 0 ds))"
      using ds by (rule py_int16_0x_digits)
    ultimately show "py_int16 (''0x'' @ replicate m (CHR ''0'') @ ds) = py_int16 (''0x'' @ ds)"
      by (simp add: hex_value_zeros)
  qed
  have c7: "is_uint256 k \<and> is_uint256 k' \<longrightarrow>
      (fixed_hex 64 (uint256_of k) = fixed_hex 64 (uint256_of k') \<longleftrightarrow>
       py_int16 k = py_int16 k')"
  proof (intro impI, elim conjE)
    assume k: "is_uint256 k" and k': "is_uint256 k'"
    show "fixed_hex 64 (uint256_of k) = fixed_hex 64 (uint256_of k') \<longleftrightarrow>
            py_int16 k = py_int16 k'"
    proof
      assume "fixed_hex 64 (uint256_of k) = fixed_hex 64 (uint256_of k')"
      then show "py_int16 k = py_int16 k'"
        using uint256_of_roundtrip[OF k] uint256_of_roundtrip[OF k'] by simp
    next
      assume "py_int16 k = py_int16 k'"
      then show "fixed_hex 64 (uint256_of k) = fixed_hex 64 (uint256_of k')"
        by (simp add: uint256_of_def)
    qed
  qed
  show ?thesis by (intro conjI c1 c1' c2 c3 c4 c5 c6 c7)
qed

theorem set_pre_state_fixed_width_witness:
  "set_pre_state example_ledger
     [(''0xa1'', \<lparr>code = ''0x'', balance = ''0x60'', nonce = ''0x02'',
                  storage = [(''0x00'', ''0x1''), (''0x0a'', ''0x0001'')]\<rparr>)] 0 =
     ([MakeRequest ''anvil_setCode'' [Str ''0xa1'', Str ''0x''] True,
       MakeRequest ''anvil_setBalance'' [Str ''0xa1'', Str ''0x60''] True,
       MakeRequest ''anvil_setNonce'' [Str ''0xa1'', Str ''0x02''] True,
       MakeRequest ''anvil_setStorageAt''
         [Str ''0xa1'',
          Str ''0x0000000000000000000000000000000000000000000000000000000000000000'',
          Str ''0x0000000000000000000000000000000000000000000000000000000000000001''] True,
       MakeRequest ''anvil_setStorageAt''
         [Str ''0xa1'',
          Str ''0x000000000000000000000000000000000000000000000000000000000000000a'',
          Str ''0x0000000000000000000000000000000000000000000000000000000000000001''] True],
      Inr 500) \<and>
   node_run example_ledger
     [MakeRequest ''anvil_setCode'' [Str ''0xa1'', Str ''0x''] True,
      MakeRequest ''anvil_setBalance'' [Str ''0xa1'', Str ''0x60''] True,
      MakeRequest ''anvil_setNonce'' [Str ''0xa1'', Str ''0x02''] True,
      MakeRequest ''anvil_setStorageAt''
        [Str ''0xa1'',
         Str ''0x0000000000000000000000000000000000000000000000000000000000000000'',
         Str ''0x0000000000000000000000000000000000000000000000000000000000000001''] True,
      MakeRequest ''anvil_setStorageAt''
        [Str ''0xa1'',
         Str ''0x000000000000000000000000000000000000000000000000000000000000000a'',
         Str ''0x0000000000000000000000000000000000000000000000000000000000000001''] True] 0 =
     Reached 500 \<and>
   py_int16 ''0x0001'' = py_int16 ''0x1''"
proof -
  let ?accounts = "[(''0xa1'', \<lparr>code = ''0x'', balance = ''0x60'', nonce = ''0x02'',
                  storage = [(''0x00'', ''0x1''), (''0x0a'', ''0x0001'')]\<rparr>)]"
  have wf: "\<forall>(address, acc) \<in> set ?accounts.
              \<forall>(k, v) \<in> set (storage acc). is_uint256 k \<and> is_uint256 v"
    by code_simp
  note t = set_pre_state_fixed_width[OF wf, where w = example_ledger and s = 0 and s' = 500
      and n = 1 and ds = "''1''" and m = 3 and k = "''0x1''" and k' = "''0x0001''"]
  have ok: "snd (set_pre_state example_ledger ?accounts 0) = Inr 500" by code_simp
  have digits: "''1'' \<noteq> [] \<and> (\<forall>c \<in> set ''1''. is_hex_digit c)" by code_simp
  have u: "uint256_of ''0x00'' = 0" "uint256_of ''0x1'' = 1" "uint256_of ''0x0a'' = 10"
    "uint256_of ''0x0001'' = 1"
    by code_simp+
  have f: "fixed_hex 64 0 = ''0000000000000000000000000000000000000000000000000000000000000000''"
    "fixed_hex 64 1 = ''0000000000000000000000000000000000000000000000000000000000000001''"
    "fixed_hex 64 10 = ''000000000000000000000000000000000000000000000000000000000000000a''"
    by code_simp+
  have reqs: "seeding_requests ?accounts =
      [MakeRequest ''anvil_setCode'' [Str ''0xa1'', Str ''0x''] True,
       MakeRequest ''anvil_setBalance'' [Str ''0xa1'', Str ''0x60''] True,
       MakeRequest ''anvil_setNonce'' [Str ''0xa1'', Str ''0x02''] True,
       MakeRequest ''anvil_setStorageAt''
         [Str ''0xa1'',
          Str ''0x0000000000000000000000000000000000000000000000000000000000000000'',
          Str ''0x0000000000000000000000000000000000000000000000000000000000000001''] True,
       MakeRequest ''anvil_setStorageAt''
         [Str ''0xa1'',
          Str ''0x000000000000000000000000000000000000000000000000000000000000000a'',
          Str ''0x0000000000000000000000000000000000000000000000000000000000000001''] True]"
    by (simp add: seeding_requests_def u f f(2)[unfolded One_nat_def])
  have issued: "fst (set_pre_state example_ledger ?accounts 0) = seeding_requests ?accounts \<and>
                node_run example_ledger (seeding_requests ?accounts) 0 = Reached 500"
    using t ok by blast
  have "py_int16 (''0x'' @ replicate 3 (CHR ''0'') @ ''1'') = py_int16 (''0x'' @ ''1'')"
    using t digits by blast
  then have zeros: "py_int16 ''0x0001'' = py_int16 ''0x1''"
    by (simp add: numeral_3_eq_3)
  have a: "set_pre_state example_ledger ?accounts 0 = (seeding_requests ?accounts, Inr 500)"
    by (rule prod_eqI) (simp_all only: fst_conv snd_conv issued[THEN conjunct1] ok)
  note b = issued[THEN conjunct2]
  show ?thesis
    by (intro conjI a[unfolded reqs] b[unfolded reqs] zeros)
qed

section \<open>Properties of the pipeline\<close>

lemma and_then_no_submission:
  assumes "\<forall>c \<in> set (fst m). \<not> is_submission c"
    and "\<And>x. \<forall>c \<in> set (fst (f x)). \<not> is_submission c"
  shows "\<forall>c \<in> set (fst (and_then m f)). \<not> is_submission c"
proof (cases m)
  case (Pair tr r)
  show ?thesis
  proof (cases r)
    case (Inl e)
    then show ?thesis using assms(1) Pair by (simp add: and_then_def)
  next
    case (Inr x)
    then show ?thesis using assms(1) assms(2)[of x] Pair by (auto simp: and_then_def)
  qed
qed

lemma and_then_Inl:
  assumes "\<And>x. \<exists>e. snd (f x) = Inl e"
  shows "\<exists>e. snd (and_then m f) = Inl e"
proof (cases m)
  case (Pair tr r)
  show ?thesis
  proof (cases r)
    case (Inl e)
    then show ?thesis using Pair by (simp add: and_then_def)
  next
    case (Inr x)
    then show ?thesis using assms[of x] Pair by (simp add: and_then_def)
  qed
qed

lemma and_then_snd_Inr:
  "snd m = Inr x \<Longrightarrow> snd (and_then m f) = snd (f x)"
  by (cases m) (simp add: and_then_def)

lemma request_no_submission: "\<forall>c \<in> set (fst (request w m ps s)). \<not> is_submission c"
  by (simp add: request_def split: option.splits)

lemma set_storage_no_submission:
  "\<forall>c \<in> set (fst (set_storage w a kvs s)). \<not> is_submission c"
proof (induction kvs arbitrary: s)
  case Nil
  then show ?case by simp
next
  case (Cons kv kvs)
  obtain k v where kv: "kv = (k, v)" by (cases kv)
  show ?case
  proof (cases "py_int16 k")
    case None
    then show ?thesis by (simp add: kv)
  next
    case kn: (Some kn)
    show ?thesis
    proof (cases "py_int16 v")
      case None
      then show ?thesis by (simp add: kv kn)
    next
      case vn: (Some vn)
      let ?r = "request w ''anvil_setStorageAt''
                  [Str a, Str (''0x'' @ format_064x kn), Str (''0x'' @ format_064x vn)] s"
      have r: "\<forall>c \<in> set (fst ?r). \<not> is_submission c" by (rule request_no_submission)
      show ?thesis
      proof (cases ?r)
        case (Pair tr res)
        then show ?thesis using r Cons.IH by (cases res) (auto simp: kv kn vn)
      qed
    qed
  qed
qed

lemma set_account_no_submission:
  "\<forall>c \<in> set (fst (set_account w a acc s)). \<not> is_submission c"
  unfolding set_account_def
  by (intro and_then_no_submission request_no_submission set_storage_no_submission)

lemma set_pre_state_no_submission:
  "\<forall>c \<in> set (fst (set_pre_state w accounts s)). \<not> is_submission c"
proof (induction accounts arbitrary: s)
  case Nil
  then show ?case by simp
next
  case (Cons entry accounts)
  obtain a acc where entry: "entry = (a, acc)" by (cases entry)
  have acc: "\<forall>c \<in> set (fst (set_account w a acc s)). \<not> is_submission c"
    by (rule set_account_no_submission)
  show ?case
  proof (cases "set_account w a acc s")
    case (Pair tr res)
    then show ?thesis using acc Cons.IH by (cases res) (auto simp: entry)
  qed
qed

lemma set_block_no_submission:
  "\<forall>c \<in> set (fst (set_block w rlp_decode data s)). \<not> is_submission c"
proof (cases "get_block rlp_decode data")
  case (Inl e)
  then show ?thesis by (simp add: set_block_def)
next
  case (Inr blk)
  have first: "\<forall>c \<in> set (fst (case transactions blk of
                 [] \<Rightarrow> ([], Inr s)
               | tx # _ \<Rightarrow>
                   (case chain_id tx of
                      None \<Rightarrow> ([], Inr s)
                    | Some c \<Rightarrow> request w ''anvil_setChainId'' [Num c] s))). \<not> is_submission c"
    using request_no_submission[of w "''anvil_setChainId''" _ s]
    by (auto split: list.splits option.splits)
  show ?thesis
    unfolding set_block_def Inr sum.case
    by (intro and_then_no_submission first request_no_submission)
qed

text \<open>
  C5. On a block without transactions the replay makes no call to the node and fails with
  the error of an empty block. In the pipeline, when the vector is found and its block is
  decoded without transactions: the run fails, no transaction is submitted, and when the
  node is connected and the seeding of the pre-state and of the block context completes,
  the failure is the error of an empty block.
\<close>

theorem empty_block_fails_before_submission:
  assumes "transactions blk = []"
  shows
  "send_transactions w blk s =
     ([], Inl (EmptyBlockError ''Could not find transaction in test data'')) \<and>
   (get_test_file json_loads listdir read_text name folder = Inr test \<and>
    get_block rlp_decode test = Inr blk \<longrightarrow>
      (\<forall>c \<in> set (fst (main json_loads listdir read_text name folder rlp_decode
                         to_checksum_address BEACON_ROOT_ADDRESS w s)). \<not> is_submission c) \<and>
      (\<exists>e. snd (main json_loads listdir read_text name folder rlp_decode
                 to_checksum_address BEACON_ROOT_ADDRESS w s) = Inl e) \<and>
      (is_connected w s \<and> snd (set_pre_state w (pre test) s) = Inr s1 \<and>
       snd (set_block w rlp_decode test s1) = Inr s2 \<longrightarrow>
         snd (main json_loads listdir read_text name folder rlp_decode
                to_checksum_address BEACON_ROOT_ADDRESS w s) =
           Inl (EmptyBlockError ''Could not find transaction in test data'')))"
proof (intro conjI impI)
  let ?E = "EmptyBlockError ''Could not find transaction in test data''"
  let ?main = "main json_loads listdir read_text name folder rlp_decode
                 to_checksum_address BEACON_ROOT_ADDRESS w s"
  show empty: "send_transactions w blk t = ([], Inl ?E)" for t
    using assms by (simp add: send_transactions_def)
  assume found: "get_test_file json_loads listdir read_text name folder = Inr test \<and>
                 get_block rlp_decode test = Inr blk"
  let ?seed = "and_then (set_pre_state w (pre test) s) (\<lambda>s.
               and_then (set_block w rlp_decode test s) (\<lambda>s. ([], Inl ?E)))"
  have main: "?main =
      (if \<not> is_connected w s then ([], Inl (NotConnectedError ''Not connected to anvil endpoint''))
       else ?seed)"
    using found by (simp add: main_def connect_anvil_def empty and_then_def)
  show "\<forall>c \<in> set (fst ?main). \<not> is_submission c"
  proof (cases "is_connected w s")
    case True
    have "\<forall>c \<in> set (fst ?seed). \<not> is_submission c"
      by (intro and_then_no_submission set_pre_state_no_submission set_block_no_submission) simp
    then show ?thesis using True main by simp
  next
    case False
    then show ?thesis using main by simp
  qed
  show "\<exists>e. snd ?main = Inl e"
  proof (cases "is_connected w s")
    case True
    have "\<exists>e. snd ?seed = Inl e"
      by (intro and_then_Inl) simp
    then show ?thesis using True main by simp
  next
    case False
    then show ?thesis using main by simp
  qed
  assume seeded: "is_connected w s \<and> snd (set_pre_state w (pre test) s) = Inr s1 \<and>
                  snd (set_block w rlp_decode test s1) = Inr s2"
  then have "snd ?seed = Inl ?E"
    by (simp add: and_then_snd_Inr)
  then show "snd ?main = Inl ?E" using seeded main by simp
qed

theorem empty_block_fails_before_submission_witness:
  "send_transactions example_provider (example_block []) 0 =
     ([], Inl (EmptyBlockError ''Could not find transaction in test data'')) \<and>
   filter is_submission
     (fst (main example_json_loads [''add_d0g0v0_Cancun.json''] (\<lambda>f. ''vector'') ''add'' []
             (\<lambda>bs. Some (example_block [])) Some ''0xbeac'' example_provider 0)) = [] \<and>
   snd (main example_json_loads [''add_d0g0v0_Cancun.json''] (\<lambda>f. ''vector'') ''add'' []
          (\<lambda>bs. Some (example_block [])) Some ''0xbeac'' example_provider 0) =
     Inl (EmptyBlockError ''Could not find transaction in test data'')"
proof -
  let ?decode = "\<lambda>bs :: byte list. Some (example_block [])"
  have no_txs: "transactions (example_block []) = []"
    by (simp add: example_block_def)
  have found: "get_test_file example_json_loads [''add_d0g0v0_Cancun.json''] (\<lambda>f. ''vector'')
                 ''add'' [] = Inr example_vector \<and>
               get_block ?decode example_vector = Inr (example_block [])"
    by code_simp
  have seeded: "is_connected example_provider 0 \<and>
                snd (set_pre_state example_provider (pre example_vector) 0) = Inr 0 \<and>
                snd (set_block example_provider ?decode example_vector 0) = Inr 0"
    by code_simp
  show ?thesis
    using empty_block_fails_before_submission[OF no_txs,
        where w = example_provider and s = 0 and json_loads = example_json_loads
          and listdir = "[''add_d0g0v0_Cancun.json'']" and read_text = "\<lambda>f. ''vector''"
          and name = "''add''" and folder = "[]" and test = example_vector
          and rlp_decode = ?decode and to_checksum_address = Some
          and BEACON_ROOT_ADDRESS = "''0xbeac''" and ?s1.0 = 0 and ?s2.0 = 0]
      found seeded
    by (simp only: filter_empty_conv) blast
qed

end
